theory Spec2Isabelle
  imports Main "HOL-Library.AList" "HOL-Library.Char_ord" "HOL-Library.List_Lexorder"
    "HOL-Library.Product_Lexorder"
begin

section \<open>Configuration (app/core/config.py, class Settings)\<close>

text \<open>
  Only the business-logic settings are carried; all are Python \<open>int\<close> fields, counted in
  seconds where they are durations.
\<close>

record settings =
  post_default_ttl :: int
  recommendation_extension_ttl :: int
  recommendation_extension_threshold :: int
  hall_of_fame_view_threshold :: int
  report_blind_threshold :: int

definition default_settings :: settings where
  "default_settings =
     \<lparr>post_default_ttl = 600,
      recommendation_extension_ttl = 300,
      recommendation_extension_threshold = 100,
      hall_of_fame_view_threshold = 100000,
      report_blind_threshold = 50\<rparr>"

section \<open>The store: one hash per post and four sorted sets\<close>

text \<open>
  The hash \<open>post:{id}\<close> has the nine fields that \<open>create_post\<close> writes. A field may be
  missing (\<open>None\<close>): \<open>HINCRBY\<close> and \<open>HSET\<close> on a key that does not exist create a hash
  holding only the field they write. The three counters are written only as \<open>"0"\<close> and by
  \<open>HINCRBY\<close>, so they are carried as integers; \<open>tags\<close> is the JSON text of a list of
  strings and is carried as that list; \<open>created_at\<close> and \<open>created_at_ts\<close> are two renderings
  of the same instant. Time is counted in whole seconds. Counters are unbounded integers:
  the server's 64-bit limit is out of reach of increments by one.
\<close>

record post_hash =
  h_id :: "string option"
  h_content :: "string option"
  h_created_at :: "int option"
  h_created_at_ts :: "int option"
  h_tags :: "string list option"
  h_views :: "int option"
  h_recommendations :: "int option"
  h_reports :: "int option"
  h_status :: "string option"

definition empty_hash :: post_hash where
  "empty_hash =
     \<lparr>h_id = None, h_content = None, h_created_at = None, h_created_at_ts = None,
      h_tags = None, h_views = None, h_recommendations = None, h_reports = None,
      h_status = None\<rparr>"

datatype counter = Views | Recommendations | Reports

fun counter_get :: "counter \<Rightarrow> post_hash \<Rightarrow> int option" where
  "counter_get Views h = h_views h"
| "counter_get Recommendations h = h_recommendations h"
| "counter_get Reports h = h_reports h"

fun counter_set :: "counter \<Rightarrow> int \<Rightarrow> post_hash \<Rightarrow> post_hash" where
  "counter_set Views v h = h\<lparr>h_views := Some v\<rparr>"
| "counter_set Recommendations v h = h\<lparr>h_recommendations := Some v\<rparr>"
| "counter_set Reports v h = h\<lparr>h_reports := Some v\<rparr>"

definition counter_value :: "counter \<Rightarrow> post_hash \<Rightarrow> int" where
  "counter_value c h = (case counter_get c h of None \<Rightarrow> 0 | Some n \<Rightarrow> n)"

text \<open>
  A sorted set is a list of (member, score) pairs; every operation below keeps the members
  distinct. The four sorted sets have fixed key names.
\<close>

type_synonym zset = "(string \<times> int) list"

datatype zname = Posts_active | Posts_expiring | Posts_rank_views | Posts_rank_recs

text \<open>
  \<open>hashes\<close> maps a key \<open>post:{id}\<close> to its fields and its expiry deadline (\<open>None\<close>: the key
  never expires). A key whose deadline has passed is still in the map and is treated as
  missing by every command, as the server does.
\<close>

record store =
  hashes :: "string \<Rightarrow> (post_hash \<times> int option) option"
  posts_active :: zset
  posts_expiring :: zset
  posts_rank_views :: zset
  posts_rank_recs :: zset

definition empty_store :: store where
  "empty_store =
     \<lparr>hashes = (\<lambda>k. None), posts_active = [], posts_expiring = [],
      posts_rank_views = [], posts_rank_recs = []\<rparr>"

section \<open>The store's commands, run at server time \<open>now\<close>\<close>

definition key_expired :: "int \<Rightarrow> int option \<Rightarrow> bool" where
  "key_expired now d = (case d of None \<Rightarrow> False | Some w \<Rightarrow> w < now)"

definition lookup_key :: "int \<Rightarrow> store \<Rightarrow> string \<Rightarrow> (post_hash \<times> int option) option" where
  "lookup_key now s key =
     (case hashes s key of
        None \<Rightarrow> None
      | Some (h, d) \<Rightarrow> if key_expired now d then None else Some (h, d))"

definition redis_exists :: "int \<Rightarrow> store \<Rightarrow> string \<Rightarrow> bool" where
  "redis_exists now s key = (case lookup_key now s key of None \<Rightarrow> False | Some ent \<Rightarrow> True)"

definition redis_hgetall :: "int \<Rightarrow> store \<Rightarrow> string \<Rightarrow> post_hash" where
  "redis_hgetall now s key =
     (case lookup_key now s key of None \<Rightarrow> empty_hash | Some (h, d) \<Rightarrow> h)"

text \<open>\<open>TTL\<close>: -2 for a missing key, -1 for a key without deadline, else the seconds left.\<close>

definition redis_ttl :: "int \<Rightarrow> store \<Rightarrow> string \<Rightarrow> int" where
  "redis_ttl now s key =
     (case lookup_key now s key of
        None \<Rightarrow> - 2
      | Some (h, None) \<Rightarrow> - 1
      | Some (h, Some w) \<Rightarrow> w - now)"

text \<open>
  \<open>EXPIRE\<close>: nothing on a missing key; a deadline that is not in the future deletes the
  key; otherwise the deadline is replaced.
\<close>

definition redis_expire :: "int \<Rightarrow> string \<Rightarrow> int \<Rightarrow> store \<Rightarrow> store" where
  "redis_expire now key secs s =
     (case lookup_key now s key of
        None \<Rightarrow> s
      | Some (h, d) \<Rightarrow>
          if secs \<le> 0 then s\<lparr>hashes := (hashes s)(key := None)\<rparr>
          else s\<lparr>hashes := (hashes s)(key := Some (h, Some (now + secs)))\<rparr>)"

text \<open>The fields and deadline a write starts from: those of the live key, or a fresh hash.\<close>

definition hash_for_write :: "int \<Rightarrow> store \<Rightarrow> string \<Rightarrow> post_hash \<times> int option" where
  "hash_for_write now s key =
     (case lookup_key now s key of None \<Rightarrow> (empty_hash, None) | Some ent \<Rightarrow> ent)"

definition redis_hincrby :: "int \<Rightarrow> string \<Rightarrow> counter \<Rightarrow> int \<Rightarrow> store \<Rightarrow> store \<times> int" where
  "redis_hincrby now key c incr s =
     (let (h, d) = hash_for_write now s key;
          v = counter_value c h + incr
      in (s\<lparr>hashes := (hashes s)(key := Some (counter_set c v h, d))\<rparr>, v))"

definition redis_hset_status :: "int \<Rightarrow> string \<Rightarrow> string \<Rightarrow> store \<Rightarrow> store" where
  "redis_hset_status now key v s =
     (let (h, d) = hash_for_write now s key
      in s\<lparr>hashes := (hashes s)(key := Some (h\<lparr>h_status := Some v\<rparr>, d))\<rparr>)"

definition or_else :: "'a option \<Rightarrow> 'a option \<Rightarrow> 'a option" where
  "or_else new old = (case new of None \<Rightarrow> old | Some v \<Rightarrow> Some v)"

text \<open>\<open>HSET key mapping=...\<close>: every field of the mapping overwrites that field of the hash.\<close>

definition hset_fields :: "post_hash \<Rightarrow> post_hash \<Rightarrow> post_hash" where
  "hset_fields m h =
     \<lparr>h_id = or_else (h_id m) (h_id h),
      h_content = or_else (h_content m) (h_content h),
      h_created_at = or_else (h_created_at m) (h_created_at h),
      h_created_at_ts = or_else (h_created_at_ts m) (h_created_at_ts h),
      h_tags = or_else (h_tags m) (h_tags h),
      h_views = or_else (h_views m) (h_views h),
      h_recommendations = or_else (h_recommendations m) (h_recommendations h),
      h_reports = or_else (h_reports m) (h_reports h),
      h_status = or_else (h_status m) (h_status h)\<rparr>"

definition redis_hset_mapping :: "int \<Rightarrow> string \<Rightarrow> post_hash \<Rightarrow> store \<Rightarrow> store" where
  "redis_hset_mapping now key m s =
     (let (h, d) = hash_for_write now s key
      in s\<lparr>hashes := (hashes s)(key := Some (hset_fields m h, d))\<rparr>)"

fun zget :: "zname \<Rightarrow> store \<Rightarrow> zset" where
  "zget Posts_active s = posts_active s"
| "zget Posts_expiring s = posts_expiring s"
| "zget Posts_rank_views s = posts_rank_views s"
| "zget Posts_rank_recs s = posts_rank_recs s"

fun zput :: "zname \<Rightarrow> zset \<Rightarrow> store \<Rightarrow> store" where
  "zput Posts_active z s = s\<lparr>posts_active := z\<rparr>"
| "zput Posts_expiring z s = s\<lparr>posts_expiring := z\<rparr>"
| "zput Posts_rank_views z s = s\<lparr>posts_rank_views := z\<rparr>"
| "zput Posts_rank_recs z s = s\<lparr>posts_rank_recs := z\<rparr>"

definition zscore :: "zset \<Rightarrow> string \<Rightarrow> int option" where
  "zscore z m = map_of z m"

definition redis_zadd :: "zname \<Rightarrow> string \<Rightarrow> int \<Rightarrow> store \<Rightarrow> store" where
  "redis_zadd zn m sc s = zput zn (AList.update m sc (zget zn s)) s"

definition redis_zincrby :: "zname \<Rightarrow> int \<Rightarrow> string \<Rightarrow> store \<Rightarrow> store" where
  "redis_zincrby zn incr m s =
     (let z = zget zn s;
          v = (case zscore z m of None \<Rightarrow> 0 | Some sc \<Rightarrow> sc) + incr
      in zput zn (AList.update m v z) s)"

definition redis_zrem :: "zname \<Rightarrow> string \<Rightarrow> store \<Rightarrow> store" where
  "redis_zrem zn m s = zput zn (AList.delete m (zget zn s)) s"

definition redis_zcard :: "zname \<Rightarrow> store \<Rightarrow> int" where
  "redis_zcard zn s = int (length (zget zn s))"

text \<open>Members in ascending order of (score, member), as the server keeps them.\<close>

definition zsorted :: "zset \<Rightarrow> zset" where
  "zsorted z = sort_key (\<lambda>p. (snd p, fst p)) z"

definition redis_zrangebyscore :: "zname \<Rightarrow> int \<Rightarrow> int \<Rightarrow> store \<Rightarrow> string list" where
  "redis_zrangebyscore zn lo hi s =
     map fst (filter (\<lambda>p. lo \<le> snd p \<and> snd p \<le> hi) (zsorted (zget zn s)))"

text \<open>
  \<open>ZREVRANGE start stop\<close>: descending order; a negative index counts from the end; the
  range is clipped to the set.
\<close>

definition redis_zrevrange :: "zname \<Rightarrow> int \<Rightarrow> int \<Rightarrow> store \<Rightarrow> zset" where
  "redis_zrevrange zn start stop s =
     (let z = rev (zsorted (zget zn s));
          n = int (length z);
          start1 = (if start < 0 then start + n else start);
          stop1 = (if stop < 0 then stop + n else stop);
          start2 = (if start1 < 0 then 0 else start1);
          stop2 = (if n \<le> stop1 then n - 1 else stop1)
      in if stop2 < start2 \<or> n \<le> start2 then []
         else take (nat (stop2 - start2 + 1)) (drop (nat start2) z))"

section \<open>Pipelines and coroutines\<close>

text \<open>
  The commands the service queues on a pipeline, and what the transaction does when it
  is executed: the commands run in order, with nothing in between.
\<close>

datatype cmd =
    HSET_mapping string post_hash
  | EXPIRE string int
  | ZADD zname string int
  | ZREM zname string

fun exec_cmd :: "int \<Rightarrow> cmd \<Rightarrow> store \<Rightarrow> store" where
  "exec_cmd now (HSET_mapping key m) s = redis_hset_mapping now key m s"
| "exec_cmd now (EXPIRE key secs) s = redis_expire now key secs s"
| "exec_cmd now (ZADD zn m sc) s = redis_zadd zn m sc s"
| "exec_cmd now (ZREM zn m) s = redis_zrem zn m s"

definition pipeline_execute :: "int \<Rightarrow> cmd list \<Rightarrow> store \<Rightarrow> store" where
  "pipeline_execute now cmds s = fold (exec_cmd now) cmds s"

text \<open>
  The client is \<open>redis.asyncio\<close>: a command call such as \<open>self.redis.zadd(...)\<close> returns a
  coroutine, which runs only when it is awaited. On a pipeline a command call only queues
  the command, and \<open>execute\<close> is the coroutine function that sends the queue. The service
  writes \<open>await self.redis.zadd(...)\<close>, but it writes \<open>pipe.execute()\<close> with no \<open>await\<close>, in
  \<open>create_post\<close> and in \<open>cleanup_expired_indexes\<close>: that call builds the coroutine and
  drops it, so the queued commands are never sent. \<open>not_awaited\<close> is that call: whatever
  the coroutine would do, the store stays as it is.
\<close>

definition not_awaited :: "(store \<Rightarrow> store) \<Rightarrow> store \<Rightarrow> store" where
  "not_awaited coro s = s"

section \<open>RedisService (app/services/redis_service.py)\<close>

text \<open>The dict that \<open>create_post\<close> and \<open>get_post\<close> return.\<close>

record snapshot =
  sn_id :: string
  sn_content :: "string option"
  sn_created_at :: "int option"
  sn_ttl_seconds :: int
  sn_tags :: "string list"
  sn_views :: int
  sn_recommendations :: int
  sn_reports :: int
  sn_status :: string

subsection \<open>create_post\<close>

definition post_data :: "string \<Rightarrow> int \<Rightarrow> string \<Rightarrow> string list \<Rightarrow> post_hash" where
  "post_data post_id now content tags =
     \<lparr>h_id = Some post_id,
      h_content = Some content,
      h_created_at = Some now,
      h_created_at_ts = Some now,
      h_tags = Some tags,
      h_views = Some 0,
      h_recommendations = Some 0,
      h_reports = Some 0,
      h_status = Some ''active''\<rparr>"

definition create_post_pipe :: "settings \<Rightarrow> string \<Rightarrow> int \<Rightarrow> string \<Rightarrow> string list \<Rightarrow> cmd list" where
  "create_post_pipe cfg post_id now content tags =
     [HSET_mapping (''post:'' @ post_id) (post_data post_id now content tags),
      EXPIRE (''post:'' @ post_id) (post_default_ttl cfg),
      ZADD Posts_active post_id now,
      ZADD Posts_expiring post_id (now + post_default_ttl cfg)]"

text \<open>
  \<open>uuid_hex\<close> is the 32 hexadecimal digits of the fresh UUID. The returned dict also has
  \<open>created_at_ts\<close>, which no reader uses; its counters are the strings \<open>"0"\<close>.
\<close>

definition create_post ::
  "settings \<Rightarrow> string \<Rightarrow> int \<Rightarrow> string \<Rightarrow> string list \<Rightarrow> store \<Rightarrow> store \<times> snapshot" where
  "create_post cfg uuid_hex now content tags s =
     (let post_id = ''post_'' @ take 12 uuid_hex;
          pipe = create_post_pipe cfg post_id now content tags;
          s0 = not_awaited (pipeline_execute now pipe) s;
          s1 = redis_zadd Posts_rank_views post_id 0 s0;
          s2 = redis_zadd Posts_rank_recs post_id 0 s1
      in (s2,
          \<lparr>sn_id = post_id,
           sn_content = Some content,
           sn_created_at = Some now,
           sn_ttl_seconds = post_default_ttl cfg,
           sn_tags = tags,
           sn_views = 0,
           sn_recommendations = 0,
           sn_reports = 0,
           sn_status = ''active''\<rparr>))"

text \<open>The same method with the transaction awaited, for comparison only.\<close>

definition create_post_awaited ::
  "settings \<Rightarrow> string \<Rightarrow> int \<Rightarrow> string \<Rightarrow> string list \<Rightarrow> store \<Rightarrow> store" where
  "create_post_awaited cfg uuid_hex now content tags s =
     (let post_id = ''post_'' @ take 12 uuid_hex;
          pipe = create_post_pipe cfg post_id now content tags;
          s0 = pipeline_execute now pipe s;
          s1 = redis_zadd Posts_rank_views post_id 0 s0
      in redis_zadd Posts_rank_recs post_id 0 s1)"

subsection \<open>get_post and _increment_view_atomic\<close>

text \<open>\<open>string.sub(KEYS[1], 6)\<close> drops the five characters of \<open>post:\<close>.\<close>

definition increment_view_atomic :: "int \<Rightarrow> string \<Rightarrow> store \<Rightarrow> store" where
  "increment_view_atomic now post_id s =
     (let key = ''post:'' @ post_id;
          (s1, views) = redis_hincrby now key Views 1 s;
          pid = drop 5 key
      in redis_zincrby Posts_rank_views 1 pid s1)"

definition get_post :: "int \<Rightarrow> string \<Rightarrow> store \<Rightarrow> store \<times> snapshot option" where
  "get_post now post_id s =
     (let key = ''post:'' @ post_id in
      if redis_exists now s key then
        (let pd = redis_hgetall now s key;
             s1 = increment_view_atomic now post_id s;
             ttl = redis_ttl now s1 key;
             ttl_seconds = max 0 ttl;
             views = counter_value Views pd;
             s2 = redis_zadd Posts_rank_views post_id views s1
         in (s2,
             Some \<lparr>sn_id = post_id,
                  sn_content = h_content pd,
                  sn_created_at = h_created_at pd,
                  sn_ttl_seconds = ttl_seconds,
                  sn_tags = (case h_tags pd of None \<Rightarrow> [] | Some ts \<Rightarrow> ts),
                  sn_views = views,
                  sn_recommendations = counter_value Recommendations pd,
                  sn_reports = counter_value Reports pd,
                  sn_status = (case h_status pd of None \<Rightarrow> ''active'' | Some st \<Rightarrow> st)\<rparr>))
      else (s, None))"

subsection \<open>get_active_posts and get_ranking\<close>

record post_list =
  pl_posts :: "snapshot list"
  pl_total :: int
  pl_page :: int
  pl_per_page :: int

fun get_active_loop :: "int \<Rightarrow> string list \<Rightarrow> store \<Rightarrow> snapshot list \<Rightarrow> store \<times> snapshot list" where
  "get_active_loop now [] s posts = (s, posts)"
| "get_active_loop now (post_id # rest) s posts =
     (case get_post now post_id s of
        (s1, None) \<Rightarrow> get_active_loop now rest s1 posts
      | (s1, Some post) \<Rightarrow>
          if sn_status post = ''active'' then get_active_loop now rest s1 (posts @ [post])
          else get_active_loop now rest s1 posts)"

definition get_active_posts :: "int \<Rightarrow> int \<Rightarrow> int \<Rightarrow> store \<Rightarrow> store \<times> post_list" where
  "get_active_posts now page per_page s =
     (let offset = (page - 1) * per_page;
          post_ids = map fst (redis_zrevrange Posts_active offset (offset + per_page - 1) s);
          (s1, posts) = get_active_loop now post_ids s [];
          total = redis_zcard Posts_active s1
      in (s1, \<lparr>pl_posts = posts, pl_total = total, pl_page = page, pl_per_page = per_page\<rparr>))"

datatype rank_type = Rank_views | Rank_recs

fun rank_key :: "rank_type \<Rightarrow> zname" where
  "rank_key Rank_views = Posts_rank_views"
| "rank_key Rank_recs = Posts_rank_recs"

fun get_ranking_loop ::
  "int \<Rightarrow> zset \<Rightarrow> store \<Rightarrow> (snapshot \<times> int) list \<Rightarrow> store \<times> (snapshot \<times> int) list" where
  "get_ranking_loop now [] s ranking = (s, ranking)"
| "get_ranking_loop now ((post_id, score) # rest) s ranking =
     (case get_post now post_id s of
        (s1, None) \<Rightarrow> get_ranking_loop now rest s1 ranking
      | (s1, Some post) \<Rightarrow> get_ranking_loop now rest s1 (ranking @ [(post, score)]))"

definition get_ranking ::
  "int \<Rightarrow> rank_type \<Rightarrow> int \<Rightarrow> store \<Rightarrow> store \<times> (snapshot \<times> int) list" where
  "get_ranking now rt limit s =
     get_ranking_loop now (redis_zrevrange (rank_key rt) 0 (limit - 1) s) s []"

subsection \<open>RECOMMEND_SCRIPT and recommend_post\<close>

text \<open>
  What a script returns to the client: a Lua number becomes an integer reply, a Lua string
  (here always the decimal text of a counter) a bulk reply, \<open>true\<close> the integer 1 and
  \<open>false\<close> a nil reply. A Lua table becomes the list of its elements.
\<close>

datatype reply = Reply_int int | Reply_bulk int | Reply_nil

text \<open>
  \<open>recs % threshold\<close> is the floored remainder, as \<open>mod\<close> on \<open>int\<close> is; for a zero
  threshold it is not a number in Lua and the comparison with 0 is false.
\<close>

definition recommend_script ::
  "int \<Rightarrow> string \<Rightarrow> int \<Rightarrow> int \<Rightarrow> int \<Rightarrow> store \<Rightarrow> store \<times> reply list" where
  "recommend_script now key threshold extension_ttl hall_of_fame_threshold s =
     (let status = h_status (redis_hgetall now s key) in
      if status = Some ''blinded'' then
        (s, [Reply_int (- 1),
             (case h_recommendations (redis_hgetall now s key) of
                None \<Rightarrow> Reply_nil | Some n \<Rightarrow> Reply_bulk n)])
      else
        (let (s1, recs) = redis_hincrby now key Recommendations 1 s;
             should_extend = (threshold \<noteq> 0 \<and> recs mod threshold = 0);
             current_ttl = redis_ttl now s1 key;
             s2 = (if should_extend \<and> 0 < current_ttl
                   then redis_expire now key (current_ttl + extension_ttl) s1 else s1);
             post_id = drop 5 key;
             s3 = redis_zincrby Posts_rank_recs 1 post_id s2
         in (s3, [Reply_int recs, Reply_int current_ttl,
                  (if should_extend then Reply_int 1 else Reply_nil)])))"

text \<open>
  The messages are Korean format strings; each is named here by what it says, with the
  numbers it is formatted with.
\<close>

datatype message =
    Msg_blinded_cannot_recommend
  | Msg_extended int int
  | Msg_blinded_by_report int
  | Msg_reported

record recommend_result =
  rr_success :: bool
  rr_recommendations :: int
  rr_ttl_seconds :: "int option"
  rr_message :: "message option"

datatype py_error = ValueError | TypeError

fun py_truthy :: "reply \<Rightarrow> bool" where
  "py_truthy (Reply_int n) = (n \<noteq> 0)"
| "py_truthy (Reply_bulk n) = True"
| "py_truthy Reply_nil = False"

text \<open>
  \<open>recs, current_ttl, should_extend = result\<close> raises \<open>ValueError\<close> unless the reply has
  exactly three elements. \<open>int(current_ttl)\<close> raises \<open>TypeError\<close> on a nil reply. Outside
  the blinded branch the script replies with two integers; any other shape, which never
  arises, is given as \<open>TypeError\<close>. The dict of the blinded branch has no \<open>ttl_seconds\<close>.
  \<open>//\<close> is the floored quotient, as \<open>div\<close> on \<open>int\<close> is.
\<close>

definition recommend_post ::
  "settings \<Rightarrow> int \<Rightarrow> string \<Rightarrow> store \<Rightarrow> store \<times> (py_error + recommend_result)" where
  "recommend_post cfg now post_id s =
     (let key = ''post:'' @ post_id;
          (s1, result) = recommend_script now key
             (recommendation_extension_threshold cfg)
             (recommendation_extension_ttl cfg)
             (hall_of_fame_view_threshold cfg) s
      in case result of
           [recs, current_ttl, should_extend] \<Rightarrow>
             if recs = Reply_int (- 1) then
               (case current_ttl of
                  Reply_nil \<Rightarrow> (s1, Inl TypeError)
                | Reply_int n \<Rightarrow>
                    (s1, Inr \<lparr>rr_success = False, rr_recommendations = n,
                              rr_ttl_seconds = None,
                              rr_message = Some Msg_blinded_cannot_recommend\<rparr>)
                | Reply_bulk n \<Rightarrow>
                    (s1, Inr \<lparr>rr_success = False, rr_recommendations = n,
                              rr_ttl_seconds = None,
                              rr_message = Some Msg_blinded_cannot_recommend\<rparr>))
             else
               (case (recs, current_ttl) of
                  (Reply_int r, Reply_int t) \<Rightarrow>
                    (let message =
                           (if py_truthy should_extend
                            then Some (Msg_extended (recommendation_extension_threshold cfg)
                                         (recommendation_extension_ttl cfg div 60))
                            else None);
                         new_ttl = t + (if py_truthy should_extend
                                        then recommendation_extension_ttl cfg else 0)
                     in (s1, Inr \<lparr>rr_success = True, rr_recommendations = r,
                                   rr_ttl_seconds = Some new_ttl, rr_message = message\<rparr>))
                | _ \<Rightarrow> (s1, Inl TypeError))
         | _ \<Rightarrow> (s1, Inl ValueError))"

subsection \<open>REPORT_SCRIPT and report_post\<close>

definition report_script :: "int \<Rightarrow> string \<Rightarrow> int \<Rightarrow> store \<Rightarrow> store \<times> reply list" where
  "report_script now key blind_threshold s =
     (let (s1, reports) = redis_hincrby now key Reports 1 s in
      if blind_threshold \<le> reports then
        (redis_hset_status now key ''blinded'' s1, [Reply_int reports, Reply_int 1])
      else (s1, [Reply_int reports, Reply_nil]))"

record report_result =
  rp_success :: bool
  rp_reports :: int
  rp_message :: message

definition report_post ::
  "settings \<Rightarrow> int \<Rightarrow> string \<Rightarrow> store \<Rightarrow> store \<times> (py_error + report_result)" where
  "report_post cfg now post_id s =
     (let key = ''post:'' @ post_id;
          (s1, result) = report_script now key (report_blind_threshold cfg) s
      in case result of
           [Reply_int reports, is_blinded] \<Rightarrow>
             (let message = (if py_truthy is_blinded
                             then Msg_blinded_by_report (report_blind_threshold cfg)
                             else Msg_reported)
              in (s1, Inr \<lparr>rp_success = True, rp_reports = reports, rp_message = message\<rparr>))
         | [reports, is_blinded] \<Rightarrow> (s1, Inl TypeError)
         | _ \<Rightarrow> (s1, Inl ValueError))"

subsection \<open>cleanup_expired_indexes\<close>

definition cleanup_pipe :: "string list \<Rightarrow> cmd list" where
  "cleanup_pipe expired_ids =
     concat (map (\<lambda>post_id.
        [ZREM Posts_active post_id,
         ZREM Posts_expiring post_id,
         ZREM Posts_rank_views post_id,
         ZREM Posts_rank_recs post_id]) expired_ids)"

definition cleanup_expired_indexes :: "int \<Rightarrow> store \<Rightarrow> store" where
  "cleanup_expired_indexes now s =
     (let expired_ids = redis_zrangebyscore Posts_expiring 0 now s in
      if expired_ids = [] then s
      else not_awaited (pipeline_execute now (cleanup_pipe expired_ids)) s)"

text \<open>The same method with the transaction awaited, for comparison only.\<close>

definition cleanup_expired_indexes_awaited :: "int \<Rightarrow> store \<Rightarrow> store" where
  "cleanup_expired_indexes_awaited now s =
     (let expired_ids = redis_zrangebyscore Posts_expiring 0 now s in
      if expired_ids = [] then s
      else pipeline_execute now (cleanup_pipe expired_ids) s)"

section \<open>The endpoints (app/api/endpoints/posts.py)\<close>

text \<open>
  A request runs at one instant \<open>now\<close>. \<open>HTTPException\<close> with status 404 passes through;
  any other exception becomes status 500, also one raised when the response model is
  built. \<open>PostRecommendResponse\<close> requires \<open>ttl_seconds\<close>; \<open>PostReportResponse\<close> accepts
  every dict that \<open>report_post\<close> returns.
\<close>

datatype http_error = HTTP_404 | HTTP_500

definition recommend_post_endpoint ::
  "settings \<Rightarrow> int \<Rightarrow> string \<Rightarrow> store \<Rightarrow> store \<times> (http_error + recommend_result)" where
  "recommend_post_endpoint cfg now post_id s =
     (case get_post now post_id s of
        (s1, None) \<Rightarrow> (s1, Inl HTTP_404)
      | (s1, Some post) \<Rightarrow>
          (case recommend_post cfg now post_id s1 of
             (s2, Inl e) \<Rightarrow> (s2, Inl HTTP_500)
           | (s2, Inr result) \<Rightarrow>
               (case rr_ttl_seconds result of
                  None \<Rightarrow> (s2, Inl HTTP_500)
                | Some t \<Rightarrow> (s2, Inr result))))"

definition report_post_endpoint ::
  "settings \<Rightarrow> int \<Rightarrow> string \<Rightarrow> store \<Rightarrow> store \<times> (http_error + report_result)" where
  "report_post_endpoint cfg now post_id s =
     (case get_post now post_id s of
        (s1, None) \<Rightarrow> (s1, Inl HTTP_404)
      | (s1, Some post) \<Rightarrow>
          (case report_post cfg now post_id s1 of
             (s2, Inl e) \<Rightarrow> (s2, Inl HTTP_500)
           | (s2, Inr result) \<Rightarrow> (s2, Inr result)))"

text \<open>
  \<open>PostResponse\<close> requires \<open>content\<close> and \<open>created_at\<close>, counters and TTL that are not
  negative, and a status of the enumeration \<open>PostStatus\<close>.
\<close>

definition post_response_valid :: "snapshot \<Rightarrow> bool" where
  "post_response_valid post =
     (sn_content post \<noteq> None \<and> sn_created_at post \<noteq> None
      \<and> 0 \<le> sn_ttl_seconds post \<and> 0 \<le> sn_views post
      \<and> 0 \<le> sn_recommendations post \<and> 0 \<le> sn_reports post
      \<and> sn_status post \<in> set [''active'', ''blinded'', ''expired'', ''hall_of_fame''])"

definition get_post_endpoint ::
  "int \<Rightarrow> string \<Rightarrow> store \<Rightarrow> store \<times> (http_error + snapshot)" where
  "get_post_endpoint now post_id s =
     (case get_post now post_id s of
        (s1, None) \<Rightarrow> (s1, Inl HTTP_404)
      | (s1, Some post) \<Rightarrow>
          if post_response_valid post then (s1, Inr post) else (s1, Inl HTTP_500))"

section \<open>Every call of the service, as one step on the store\<close>

datatype service_call =
    Create_post string string "string list"
  | Get_post string
  | Get_active_posts int int
  | Recommend_post string
  | Report_post string
  | Cleanup_expired_indexes
  | Get_ranking rank_type int

fun run_call :: "settings \<Rightarrow> int \<Rightarrow> service_call \<Rightarrow> store \<Rightarrow> store" where
  "run_call cfg now (Create_post uuid_hex content tags) s =
     fst (create_post cfg uuid_hex now content tags s)"
| "run_call cfg now (Get_post post_id) s = fst (get_post now post_id s)"
| "run_call cfg now (Get_active_posts page per_page) s =
     fst (get_active_posts now page per_page s)"
| "run_call cfg now (Recommend_post post_id) s = fst (recommend_post cfg now post_id s)"
| "run_call cfg now (Report_post post_id) s = fst (report_post cfg now post_id s)"
| "run_call cfg now Cleanup_expired_indexes s = cleanup_expired_indexes now s"
| "run_call cfg now (Get_ranking rt limit) s = fst (get_ranking now rt limit s)"

section \<open>What is read off a store and a response\<close>

definition stored_counter :: "int \<Rightarrow> store \<Rightarrow> string \<Rightarrow> counter \<Rightarrow> int option" where
  "stored_counter now s post_id c =
     (case lookup_key now s (''post:'' @ post_id) of
        None \<Rightarrow> None
      | Some (h, d) \<Rightarrow> Some (counter_value c h))"

definition stored_status :: "int \<Rightarrow> store \<Rightarrow> string \<Rightarrow> string option" where
  "stored_status now s post_id = h_status (redis_hgetall now s (''post:'' @ post_id))"

definition extended :: "recommend_result \<Rightarrow> bool" where
  "extended r = (case rr_message r of Some (Msg_extended t m) \<Rightarrow> True | _ \<Rightarrow> False)"

definition blinded :: "report_result \<Rightarrow> bool" where
  "blinded r = (case rp_message r of Msg_blinded_by_report b \<Rightarrow> True | _ \<Rightarrow> False)"

section \<open>Consecutive calls and example stores\<close>

text \<open>
  Consecutive report calls on one post, one at each of the given times; the result lists,
  in call order, whether each response says that the post was blinded.
\<close>

fun report_seq :: "settings \<Rightarrow> string \<Rightarrow> int list \<Rightarrow> store \<Rightarrow> store \<times> bool list" where
  "report_seq cfg post_id [] s = (s, [])"
| "report_seq cfg post_id (now # nows) s =
     (case report_post cfg now post_id s of
        (s1, res) \<Rightarrow>
          (case report_seq cfg post_id nows s1 of
             (s2, flags) \<Rightarrow> (s2, (case res of Inl e \<Rightarrow> False | Inr r \<Rightarrow> blinded r) # flags)))"

text \<open>
  A store holding one post \<open>p\<close>, created at time 0, with the given fields and deadline, and
  the four index entries that go with it.
\<close>

definition post_p :: post_hash where
  "post_p = post_data ''p'' 0 ''hello'' []"

definition example_store :: "post_hash \<Rightarrow> int option \<Rightarrow> store" where
  "example_store h d =
     \<lparr>hashes = (\<lambda>k. if k = ''post:p'' then Some (h, d) else None),
      posts_active = [(''p'', 0)],
      posts_expiring = [(''p'', 600)],
      posts_rank_views = [(''p'', counter_value Views h)],
      posts_rank_recs = [(''p'', counter_value Recommendations h)]\<rparr>"

text \<open>The example stores of the theorems below, each holding the post \<open>p\<close>.\<close>

definition store_recs_99 :: store where
  "store_recs_99 = example_store (post_p\<lparr>h_recommendations := Some 99\<rparr>) (Some 600)"

definition store_recs_4 :: store where
  "store_recs_4 = example_store (post_p\<lparr>h_recommendations := Some 4\<rparr>) (Some 600)"

definition store_blinded :: store where
  "store_blinded =
     example_store
       (post_p\<lparr>h_recommendations := Some 5, h_reports := Some 50, h_status := Some ''blinded''\<rparr>)
       (Some 600)"

definition store_no_deadline :: store where
  "store_no_deadline = example_store (post_p\<lparr>h_recommendations := Some 99\<rparr>) None"

definition store_fresh :: store where
  "store_fresh = example_store post_p (Some 600)"

definition store_expired :: store where
  "store_expired = example_store post_p (Some 50)"


section \<open>Facts about the store's commands\<close>

lemma lookup_key_live:
  "lookup_key now s key = Some (h, d) \<Longrightarrow> hashes s key = Some (h, d) \<and> \<not> key_expired now d"
  by (auto simp: lookup_key_def split: option.splits if_splits)

lemma lookup_key_hashes_upd:
  "lookup_key now (s\<lparr>hashes := (hashes s)(key := Some (h, d))\<rparr>) k =
     (if k = key then (if key_expired now d then None else Some (h, d)) else lookup_key now s k)"
  by (simp add: lookup_key_def)

lemma lookup_key_zput [simp]: "lookup_key now (zput zn z s) k = lookup_key now s k"
  by (cases zn) (simp_all add: lookup_key_def)

lemma hashes_zput [simp]: "hashes (zput zn z s) = hashes s"
  by (cases zn) simp_all

lemma zget_hashes_upd [simp]: "zget zn (s\<lparr>hashes := m\<rparr>) = zget zn s"
  by (cases zn) simp_all

lemma zget_zput: "zget zn (zput zm z s) = (if zn = zm then z else zget zn s)"
  by (cases zn; cases zm) simp_all

lemma zget_zrem:
  "zget zn (redis_zrem zm m s) = (if zn = zm then AList.delete m (zget zn s) else zget zn s)"
  by (simp add: redis_zrem_def zget_zput)

lemma lookup_key_zincrby [simp]: "lookup_key now (redis_zincrby zn i m s) k = lookup_key now s k"
  by (simp add: redis_zincrby_def Let_def)

lemma lookup_key_zadd [simp]: "lookup_key now (redis_zadd zn m sc s) k = lookup_key now s k"
  by (simp add: redis_zadd_def)

lemma redis_hincrby_live:
  assumes "lookup_key now s key = Some (h, d)"
  shows "redis_hincrby now key c i s =
           (s\<lparr>hashes := (hashes s)(key := Some (counter_set c (counter_value c h + i) h, d))\<rparr>,
            counter_value c h + i)"
  using assms by (simp add: redis_hincrby_def hash_for_write_def Let_def)

lemma redis_ttl_live:
  "lookup_key now s key = Some (h, d) \<Longrightarrow>
   redis_ttl now s key = (case d of None \<Rightarrow> - 1 | Some w \<Rightarrow> w - now)"
  by (simp add: redis_ttl_def split: option.splits)

lemma redis_ttl_hashes_upd:
  "redis_ttl now (s\<lparr>hashes := (hashes s)(key := Some (h, d))\<rparr>) key =
     (if key_expired now d then - 2 else (case d of None \<Rightarrow> - 1 | Some w \<Rightarrow> w - now))"
  by (simp add: redis_ttl_def lookup_key_hashes_upd split: option.splits)

lemma redis_ttl_zput [simp]: "redis_ttl now (zput zn z s) k = redis_ttl now s k"
  by (simp add: redis_ttl_def)

lemma redis_ttl_zincrby [simp]: "redis_ttl now (redis_zincrby zn i m s) k = redis_ttl now s k"
  by (simp add: redis_zincrby_def Let_def)

lemma redis_expire_hashes_upd:
  assumes "\<not> key_expired now d"
  shows "redis_expire now key secs (s\<lparr>hashes := (hashes s)(key := Some (h, d))\<rparr>) =
     (if secs \<le> 0 then s\<lparr>hashes := (hashes s)(key := None)\<rparr>
      else s\<lparr>hashes := (hashes s)(key := Some (h, Some (now + secs)))\<rparr>)"
  using assms by (simp add: redis_expire_def lookup_key_hashes_upd)

lemma hash_for_write_not_expired:
  "hash_for_write now s key = (h, d) \<Longrightarrow> \<not> key_expired now d"
  by (auto simp: hash_for_write_def lookup_key_def key_expired_def split: option.splits if_splits)

lemma hash_for_write_live:
  "lookup_key now s key = Some (h, d) \<Longrightarrow> hash_for_write now s key = (h, d)"
  by (simp add: hash_for_write_def)

lemma lookup_key_hincrby:
  assumes "hash_for_write now s key = (h, d)"
  shows "lookup_key now (fst (redis_hincrby now key c i s)) q =
     (if q = key then Some (counter_set c (counter_value c h + i) h, d) else lookup_key now s q)"
  using assms hash_for_write_not_expired[OF assms]
  by (simp add: redis_hincrby_def Let_def lookup_key_hashes_upd)

lemma lookup_key_hset_status:
  assumes "hash_for_write now s key = (h, d)"
  shows "lookup_key now (redis_hset_status now key v s) q =
     (if q = key then Some (h\<lparr>h_status := Some v\<rparr>, d) else lookup_key now s q)"
  using assms hash_for_write_not_expired[OF assms]
  by (simp add: redis_hset_status_def Let_def lookup_key_hashes_upd)

lemma lookup_key_expire:
  "lookup_key now (redis_expire now key secs s) q =
     (if q = key then
        (case lookup_key now s key of
           None \<Rightarrow> None
         | Some (h, d) \<Rightarrow> if secs \<le> 0 then None else Some (h, Some (now + secs)))
      else lookup_key now s q)"
  by (auto simp: redis_expire_def lookup_key_def key_expired_def split: option.splits)

lemma counter_value_counter_set:
  "counter_value c (counter_set c' v h) = (if c = c' then v else counter_value c h)"
  by (cases c; cases c') (simp_all add: counter_value_def)

lemma counter_value_status [simp]:
  "counter_value c (h\<lparr>h_status := st\<rparr>) = counter_value c h"
  by (cases c) (simp_all add: counter_value_def)

lemma stored_counter_live:
  "lookup_key now s (''post:'' @ pid) = Some (h, d) \<Longrightarrow>
   stored_counter now s pid c = Some (counter_value c h)"
  unfolding stored_counter_def by simp

lemma zadd_after_zincrby:
  "redis_zadd zn m v (redis_zincrby zn i m s) = redis_zadd zn m v s"
  by (cases zn) (simp_all add: redis_zadd_def redis_zincrby_def Let_def)

lemma zrangebyscore_member:
  "m \<in> set (redis_zrangebyscore zn lo hi s) \<longleftrightarrow>
     (\<exists>sc. (m, sc) \<in> set (zget zn s) \<and> lo \<le> sc \<and> sc \<le> hi)"
  by (auto simp: redis_zrangebyscore_def zsorted_def image_iff)

lemma posts_expiring_hincrby [simp]:
  "posts_expiring (fst (redis_hincrby now key c i s)) = posts_expiring s"
  by (simp add: redis_hincrby_def Let_def split: prod.splits)

lemma posts_expiring_expire [simp]:
  "posts_expiring (redis_expire now key secs s) = posts_expiring s"
  by (simp add: redis_expire_def split: option.splits)

lemma posts_expiring_zincrby_recs [simp]:
  "posts_expiring (redis_zincrby Posts_rank_recs i m s) = posts_expiring s"
  by (simp add: redis_zincrby_def Let_def)

lemma posts_rank_views_hincrby [simp]:
  "posts_rank_views (fst (redis_hincrby now key c i s)) = posts_rank_views s"
  by (simp add: redis_hincrby_def Let_def split: prod.splits)

lemma posts_rank_views_expire [simp]:
  "posts_rank_views (redis_expire now key secs s) = posts_rank_views s"
  by (simp add: redis_expire_def split: option.splits)

lemma posts_rank_views_zincrby_recs [simp]:
  "posts_rank_views (redis_zincrby Posts_rank_recs i m s) = posts_rank_views s"
  by (simp add: redis_zincrby_def Let_def)

lemma posts_rank_views_hset_status [simp]:
  "posts_rank_views (redis_hset_status now key v s) = posts_rank_views s"
  by (simp add: redis_hset_status_def Let_def split: prod.splits)

section \<open>The example stores\<close>

lemma example_store_lookup:
  "lookup_key now (example_store h d) ''post:p'' = (if key_expired now d then None else Some (h, d))"
  by (simp add: lookup_key_def example_store_def)

lemma post_p_simps:
  "h_status post_p = Some ''active''" "h_recommendations post_p = Some 0"
  "h_views post_p = Some 0" "h_reports post_p = Some 0"
  by (simp_all add: post_p_def post_data_def)

lemma store_recs_99_live:
  "lookup_key 100 store_recs_99 (''post:'' @ ''p'') = Some (post_p\<lparr>h_recommendations := Some 99\<rparr>, Some 600)"
  by (simp add: store_recs_99_def example_store_lookup key_expired_def)

lemma store_recs_4_live:
  "lookup_key 100 store_recs_4 (''post:'' @ ''p'') = Some (post_p\<lparr>h_recommendations := Some 4\<rparr>, Some 600)"
  by (simp add: store_recs_4_def example_store_lookup key_expired_def)

lemma store_blinded_live:
  "lookup_key 100 store_blinded (''post:'' @ ''p'') =
     Some (post_p\<lparr>h_recommendations := Some 5, h_reports := Some 50, h_status := Some ''blinded''\<rparr>,
           Some 600)"
  by (simp add: store_blinded_def example_store_lookup key_expired_def)

lemma store_fresh_live:
  "lookup_key 100 store_fresh (''post:'' @ ''p'') = Some (post_p, Some 600)"
  by (simp add: store_fresh_def example_store_lookup key_expired_def)


section \<open>report_post\<close>

lemma report_script_live:
  assumes "lookup_key now s key = Some (h, d)"
  shows "report_script now key b s =
     (let n = counter_value Reports h + 1 in
      if b \<le> n
      then (s\<lparr>hashes := (hashes s)(key := Some (h\<lparr>h_reports := Some n, h_status := Some ''blinded''\<rparr>, d))\<rparr>,
            [Reply_int n, Reply_int 1])
      else (s\<lparr>hashes := (hashes s)(key := Some (h\<lparr>h_reports := Some n\<rparr>, d))\<rparr>,
            [Reply_int n, Reply_nil]))"
  using assms lookup_key_live[OF assms]
  by (simp add: report_script_def redis_hincrby_live redis_hset_status_def hash_for_write_def
      lookup_key_hashes_upd Let_def)

lemma report_post_live:
  assumes "lookup_key now s (''post:'' @ pid) = Some (h, d)"
  shows "report_post cfg now pid s =
     (let n = counter_value Reports h + 1; b = report_blind_threshold cfg in
      (s\<lparr>hashes := (hashes s)(''post:'' @ pid := Some
           ((if b \<le> n then h\<lparr>h_reports := Some n, h_status := Some ''blinded''\<rparr>
             else h\<lparr>h_reports := Some n\<rparr>), d))\<rparr>,
       Inr \<lparr>rp_success = True, rp_reports = n,
            rp_message = (if b \<le> n then Msg_blinded_by_report b else Msg_reported)\<rparr>))"
  using assms
  by (simp add: report_post_def report_script_live Let_def)

lemma report_seq_flags:
  assumes "hashes s (''post:'' @ pid) = Some (h, d)"
      and "list_all (\<lambda>t. \<not> key_expired t d) nows"
  shows "snd (report_seq cfg pid nows s) =
           map (\<lambda>i. report_blind_threshold cfg \<le> counter_value Reports h + int i + 1)
             [0..<length nows]"
  using assms
proof (induction nows arbitrary: s h)
  case Nil
  then show ?case by simp
next
  case (Cons now nows)
  let ?key = "''post:'' @ pid"
  let ?n = "counter_value Reports h + 1"
  let ?b = "report_blind_threshold cfg"
  let ?h' = "if ?b \<le> ?n then h\<lparr>h_reports := Some ?n, h_status := Some ''blinded''\<rparr>
             else h\<lparr>h_reports := Some ?n\<rparr>"
  let ?s' = "s\<lparr>hashes := (hashes s)(?key := Some (?h', d))\<rparr>"
  from Cons.prems have live: "lookup_key now s ?key = Some (h, d)"
    by (simp add: lookup_key_def)
  have step: "report_post cfg now pid s =
      (?s', Inr \<lparr>rp_success = True, rp_reports = ?n,
            rp_message = (if ?b \<le> ?n then Msg_blinded_by_report ?b else Msg_reported)\<rparr>)"
    using report_post_live[OF live, of cfg] by (simp add: Let_def)
  have h': "hashes ?s' ?key = Some (?h', d)" by simp
  have cnt: "counter_value Reports ?h' = ?n" by (simp add: counter_value_def)
  from Cons.prems have rest: "list_all (\<lambda>t. \<not> key_expired t d) nows" by simp
  have ih: "snd (report_seq cfg pid nows ?s') =
      map (\<lambda>i. ?b \<le> ?n + int i + 1) [0..<length nows]"
    using Cons.IH[OF h' rest] cnt by simp
  have "snd (report_seq cfg pid (now # nows) s) =
      (?b \<le> ?n) # snd (report_seq cfg pid nows ?s')"
    by (simp add: step blinded_def split: prod.splits)
  also have "\<dots> = (?b \<le> ?n) # map (\<lambda>i. ?b \<le> ?n + int i + 1) [0..<length nows]"
    by (simp only: ih)
  also have "\<dots> = map (\<lambda>i. ?b \<le> counter_value Reports h + int i + 1) [0..<length (now # nows)]"
    by (simp add: upt_conv_Cons map_Suc_upt[symmetric] del: upt_Suc)
  finally show ?case .
qed

lemma fst_report_post:
  "fst (report_post cfg now pid s) =
     fst (report_script now (''post:'' @ pid) (report_blind_threshold cfg) s)"
  unfolding report_post_def Let_def
  by (simp split: prod.splits list.splits reply.splits)

lemma report_script_keeps_key:
  assumes live: "lookup_key now s key = Some (h, d)"
  shows "\<exists>h'. lookup_key now (fst (report_script now key b s)) key = Some (h', d)"
  unfolding report_script_live[OF live]
  using lookup_key_live[OF live] by (simp add: Let_def lookup_key_hashes_upd)

lemma report_post_rank_views_unchanged:
  "posts_rank_views (fst (report_post cfg now pid s)) = posts_rank_views s"
proof -
  have "posts_rank_views (fst (report_script now key b s)) = posts_rank_views s" for key b
  proof (cases "redis_hincrby now key Reports 1 s")
    case (Pair s1 reports)
    then have "posts_rank_views s1 = posts_rank_views s"
      using posts_rank_views_hincrby[of now key Reports 1 s] by simp
    with Pair show ?thesis
      by (simp add: report_script_def Let_def)
  qed
  then show ?thesis by (simp only: fst_report_post)
qed

section \<open>recommend_post\<close>

lemma recommend_script_live:
  assumes live: "lookup_key now s key = Some (h, d)"
      and nb: "h_status h \<noteq> Some ''blinded''"
  shows "recommend_script now key T E H s =
     (let n = counter_value Recommendations h + 1;
          t = redis_ttl now s key;
          se = (T \<noteq> 0 \<and> n mod T = 0);
          h' = h\<lparr>h_recommendations := Some n\<rparr>;
          s2 = (if se \<and> 0 < t
                then (if t + E \<le> 0 then s\<lparr>hashes := (hashes s)(key := None)\<rparr>
                      else s\<lparr>hashes := (hashes s)(key := Some (h', Some (now + (t + E))))\<rparr>)
                else s\<lparr>hashes := (hashes s)(key := Some (h', d))\<rparr>)
      in (redis_zincrby Posts_rank_recs 1 (drop 5 key) s2,
          [Reply_int n, Reply_int t, (if se then Reply_int 1 else Reply_nil)]))"
proof -
  note l = lookup_key_live[OF live]
  have st: "h_status (redis_hgetall now s key) = h_status h"
    using live by (simp add: redis_hgetall_def)
  have ttl1: "redis_ttl now (s\<lparr>hashes := (hashes s)(key := Some (h\<lparr>h_recommendations := Some (counter_value Recommendations h + 1)\<rparr>, d))\<rparr>) key
      = redis_ttl now s key"
    using l live by (simp add: redis_ttl_hashes_upd redis_ttl_live)
  show ?thesis
    using nb l
    by (simp add: recommend_script_def st redis_hincrby_live[OF live] ttl1
        redis_expire_hashes_upd Let_def)
qed

lemma recommend_script_blinded:
  assumes live: "lookup_key now s key = Some (h, d)"
      and b: "h_status h = Some ''blinded''"
  shows "recommend_script now key T E H s =
     (s, [Reply_int (- 1),
          (case h_recommendations h of None \<Rightarrow> Reply_nil | Some n \<Rightarrow> Reply_bulk n)])"
  using live b by (simp add: recommend_script_def redis_hgetall_def)

lemma recommend_post_blinded:
  assumes live: "lookup_key now s (''post:'' @ pid) = Some (h, d)"
      and b: "h_status h = Some ''blinded''"
  shows "recommend_post cfg now pid s = (s, Inl ValueError)"
  unfolding recommend_post_def Let_def recommend_script_blinded[OF live b]
  by simp

lemma recommend_post_live:
  assumes live: "lookup_key now s (''post:'' @ pid) = Some (h, d)"
      and nb: "h_status h \<noteq> Some ''blinded''"
      and pos: "0 \<le> counter_value Recommendations h"
  shows "recommend_post cfg now pid s =
     (let T = recommendation_extension_threshold cfg;
          E = recommendation_extension_ttl cfg;
          n = counter_value Recommendations h + 1;
          t = redis_ttl now s (''post:'' @ pid);
          se = (T \<noteq> 0 \<and> n mod T = 0);
          h' = h\<lparr>h_recommendations := Some n\<rparr>;
          s2 = (if se \<and> 0 < t
                then (if t + E \<le> 0 then s\<lparr>hashes := (hashes s)(''post:'' @ pid := None)\<rparr>
                      else s\<lparr>hashes := (hashes s)(''post:'' @ pid := Some (h', Some (now + (t + E))))\<rparr>)
                else s\<lparr>hashes := (hashes s)(''post:'' @ pid := Some (h', d))\<rparr>)
      in (redis_zincrby Posts_rank_recs 1 pid s2,
          Inr \<lparr>rr_success = True, rr_recommendations = n,
               rr_ttl_seconds = Some (t + (if se then E else 0)),
               rr_message = (if se then Some (Msg_extended T (E div 60)) else None)\<rparr>))"
  unfolding recommend_post_def Let_def recommend_script_live[OF live nb]
  using pos by simp

lemma recommend_post_live_lookup:
  assumes live: "lookup_key now s (''post:'' @ pid) = Some (h, d)"
      and nb: "h_status h \<noteq> Some ''blinded''"
      and pos: "0 \<le> counter_value Recommendations h"
      and ext: "0 \<le> recommendation_extension_ttl cfg"
  shows "lookup_key now (fst (recommend_post cfg now pid s)) (''post:'' @ pid) =
     (let T = recommendation_extension_threshold cfg;
          E = recommendation_extension_ttl cfg;
          n = counter_value Recommendations h + 1;
          t = redis_ttl now s (''post:'' @ pid)
      in Some (h\<lparr>h_recommendations := Some n\<rparr>,
               if (T \<noteq> 0 \<and> n mod T = 0) \<and> 0 < t then Some (now + (t + E)) else d))"
proof -
  note l = lookup_key_live[OF live]
  have ne: "\<not> key_expired now (Some (now + (t + recommendation_extension_ttl cfg)))"
    if "0 < t" for t
    using that ext by (simp add: key_expired_def)
  show ?thesis
    unfolding recommend_post_live[OF live nb pos]
    using l ext ne by (simp add: Let_def lookup_key_hashes_upd)
qed

lemma fst_recommend_post:
  "fst (recommend_post cfg now pid s) =
     fst (recommend_script now (''post:'' @ pid) (recommendation_extension_threshold cfg)
            (recommendation_extension_ttl cfg) (hall_of_fame_view_threshold cfg) s)"
  unfolding recommend_post_def Let_def
  by (simp split: prod.splits list.splits reply.splits)

lemma recommend_post_expiring_unchanged:
  "posts_expiring (fst (recommend_post cfg now pid s)) = posts_expiring s"
proof -
  have "posts_expiring (fst (recommend_script now key T E H s)) = posts_expiring s"
    for key T E H
  proof (cases "redis_hincrby now key Recommendations 1 s")
    case (Pair s1 recs)
    then have "posts_expiring s1 = posts_expiring s"
      using posts_expiring_hincrby[of now key Recommendations 1 s] by simp
    with Pair show ?thesis
      by (simp add: recommend_script_def Let_def)
  qed
  then show ?thesis by (simp only: fst_recommend_post)
qed

lemma recommend_post_rank_views_unchanged:
  "posts_rank_views (fst (recommend_post cfg now pid s)) = posts_rank_views s"
proof -
  have "posts_rank_views (fst (recommend_script now key T E H s)) = posts_rank_views s"
    for key T E H
  proof (cases "redis_hincrby now key Recommendations 1 s")
    case (Pair s1 recs)
    then have "posts_rank_views s1 = posts_rank_views s"
      using posts_rank_views_hincrby[of now key Recommendations 1 s] by simp
    with Pair show ?thesis
      by (simp add: recommend_script_def Let_def)
  qed
  then show ?thesis by (simp only: fst_recommend_post)
qed

lemma recommend_script_keeps_key:
  assumes live: "lookup_key now s key = Some (h, d)"
      and ext: "0 \<le> E"
  shows "\<exists>h' d'. lookup_key now (fst (recommend_script now key T E H s)) key = Some (h', d')"
proof (cases "h_status h = Some ''blinded''")
  case True
  then show ?thesis
    unfolding recommend_script_blinded[OF live True] using live by simp
next
  case False
  note l = lookup_key_live[OF live]
  have ne: "\<not> key_expired now (Some (now + (t + E)))" if "0 < t" for t
    using that ext by (simp add: key_expired_def)
  show ?thesis
    unfolding recommend_script_live[OF live False]
    using l ext ne by (simp add: Let_def lookup_key_hashes_upd)
qed

text \<open>
  On a key without deadline the TTL is -1 and the script skips \<open>EXPIRE\<close>, yet it returns
  \<open>should_extend\<close>: the response says "extended" and returns the TTL -1 + 300 while the key
  still has no deadline.
\<close>

lemma recommend_post_extended_without_ttl:
  "snd (recommend_post default_settings 100 ''p'' store_no_deadline) =
     Inr \<lparr>rr_success = True, rr_recommendations = 100, rr_ttl_seconds = Some 299,
          rr_message = Some (Msg_extended 100 5)\<rparr>
   \<and> redis_ttl 100 store_no_deadline ''post:p'' = - 1
   \<and> redis_ttl 100 (fst (recommend_post default_settings 100 ''p'' store_no_deadline)) ''post:p''
       = - 1"
proof -
  have live: "lookup_key 100 store_no_deadline (''post:'' @ ''p'')
      = Some (post_p\<lparr>h_recommendations := Some 99\<rparr>, None)"
    by (simp add: store_no_deadline_def example_store_lookup key_expired_def)
  have nb: "h_status (post_p\<lparr>h_recommendations := Some 99\<rparr>) \<noteq> Some ''blinded''"
    by (simp add: post_p_simps)
  have pos: "0 \<le> counter_value Recommendations (post_p\<lparr>h_recommendations := Some 99\<rparr>)"
    by (simp add: counter_value_def)
  have ext: "0 \<le> recommendation_extension_ttl default_settings"
    by (simp add: default_settings_def)
  have ttl: "redis_ttl 100 store_no_deadline (''post:'' @ ''p'') = - 1"
    using redis_ttl_live[OF live] by simp
  have lk: "lookup_key 100 (fst (recommend_post default_settings 100 ''p'' store_no_deadline))
        (''post:'' @ ''p'') = Some (post_p\<lparr>h_recommendations := Some 100\<rparr>, None)"
    using recommend_post_live_lookup[OF live nb pos ext] ttl
    by (simp add: Let_def default_settings_def counter_value_def)
  have ttl': "redis_ttl 100 (fst (recommend_post default_settings 100 ''p'' store_no_deadline))
        (''post:'' @ ''p'') = - 1"
    unfolding redis_ttl_def lk by simp
  have res: "snd (recommend_post default_settings 100 ''p'' store_no_deadline) =
     Inr \<lparr>rr_success = True, rr_recommendations = 100, rr_ttl_seconds = Some 299,
          rr_message = Some (Msg_extended 100 5)\<rparr>"
    using ttl recommend_post_live[OF live nb pos, of default_settings]
    by (simp add: Let_def default_settings_def counter_value_def)
  from res ttl ttl' show ?thesis by simp
qed

text \<open>Without the endpoint's check, the script creates a record under a key that is missing.\<close>

lemma recommend_post_absent_creates:
  "recommend_post default_settings 100 ''p'' empty_store =
     (empty_store\<lparr>hashes := (hashes empty_store)(''post:p'' :=
          Some (empty_hash\<lparr>h_recommendations := Some 1\<rparr>, None)),
        posts_rank_recs := [(''p'', 1)]\<rparr>,
      Inr \<lparr>rr_success = True, rr_recommendations = 1, rr_ttl_seconds = Some (- 1),
           rr_message = None\<rparr>)"
  by (simp add: recommend_post_def recommend_script_def redis_hgetall_def lookup_key_def
      empty_store_def empty_hash_def redis_hincrby_def hash_for_write_def counter_value_def
      redis_ttl_def key_expired_def redis_zincrby_def zscore_def default_settings_def Let_def)

section \<open>get_post\<close>

lemma get_post_absent:
  assumes "lookup_key now s (''post:'' @ pid) = None"
  shows "get_post now pid s = (s, None)"
  unfolding get_post_def Let_def redis_exists_def assms by simp

lemma get_post_live:
  assumes live: "lookup_key now s (''post:'' @ pid) = Some (h, d)"
  shows "get_post now pid s =
     (redis_zadd Posts_rank_views pid (counter_value Views h)
        (s\<lparr>hashes := (hashes s)(''post:'' @ pid :=
              Some (h\<lparr>h_views := Some (counter_value Views h + 1)\<rparr>, d))\<rparr>),
      Some \<lparr>sn_id = pid,
            sn_content = h_content h,
            sn_created_at = h_created_at h,
            sn_ttl_seconds = max 0 (redis_ttl now s (''post:'' @ pid)),
            sn_tags = (case h_tags h of None \<Rightarrow> [] | Some ts \<Rightarrow> ts),
            sn_views = counter_value Views h,
            sn_recommendations = counter_value Recommendations h,
            sn_reports = counter_value Reports h,
            sn_status = (case h_status h of None \<Rightarrow> ''active'' | Some st \<Rightarrow> st)\<rparr>)"
proof -
  note l = lookup_key_live[OF live]
  have inc: "increment_view_atomic now pid s =
      redis_zincrby Posts_rank_views 1 pid
        (s\<lparr>hashes := (hashes s)(''post:'' @ pid :=
              Some (h\<lparr>h_views := Some (counter_value Views h + 1)\<rparr>, d))\<rparr>)"
    unfolding increment_view_atomic_def Let_def redis_hincrby_live[OF live] by simp
  have all: "redis_hgetall now s (''post:'' @ pid) = h"
    unfolding redis_hgetall_def live by simp
  have ex: "redis_exists now s (''post:'' @ pid)"
    unfolding redis_exists_def live by simp
  have ttl: "redis_ttl now (redis_zincrby Posts_rank_views 1 pid
        (s\<lparr>hashes := (hashes s)(''post:'' @ pid :=
              Some (h\<lparr>h_views := Some (counter_value Views h + 1)\<rparr>, d))\<rparr>)) (''post:'' @ pid)
      = redis_ttl now s (''post:'' @ pid)"
    using l redis_ttl_live[OF live] by (simp add: redis_ttl_hashes_upd)
  show ?thesis
    unfolding get_post_def Let_def inc all ttl zadd_after_zincrby
    using ex by simp
qed

lemma get_post_lookup:
  "lookup_key now (fst (get_post now pid s)) q =
     (if q = ''post:'' @ pid then
        (case lookup_key now s q of
           None \<Rightarrow> None
         | Some (h, d) \<Rightarrow> Some (h\<lparr>h_views := Some (counter_value Views h + 1)\<rparr>, d))
      else lookup_key now s q)"
proof (cases "lookup_key now s (''post:'' @ pid)")
  case None
  then show ?thesis using get_post_absent[OF None] by auto
next
  case (Some e)
  obtain h d where e: "e = (h, d)" by (cases e)
  note live = Some[unfolded e]
  note l = lookup_key_live[OF live]
  show ?thesis
    unfolding get_post_live[OF live] using live l
    by (simp add: lookup_key_hashes_upd)
qed

lemma snd_get_post_live:
  "lookup_key now s (''post:'' @ pid) = Some (h, d) \<Longrightarrow> snd (get_post now pid s) \<noteq> None"
  by (simp add: get_post_live)

lemma get_post_rank_views_score:
  assumes "lookup_key now s (''post:'' @ pid) = Some (h, d)"
  shows "zscore (posts_rank_views (fst (get_post now pid s))) pid = Some (counter_value Views h)
       \<and> stored_counter now (fst (get_post now pid s)) pid Views = Some (counter_value Views h + 1)"
proof -
  have lk: "lookup_key now (fst (get_post now pid s)) (''post:'' @ pid)
      = Some (h\<lparr>h_views := Some (counter_value Views h + 1)\<rparr>, d)"
    unfolding get_post_lookup using assms by simp
  have a: "zscore (posts_rank_views (fst (get_post now pid s))) pid = Some (counter_value Views h)"
    unfolding get_post_live[OF assms] by (simp add: zscore_def redis_zadd_def update_conv')
  have b: "stored_counter now (fst (get_post now pid s)) pid Views = Some (counter_value Views h + 1)"
    unfolding stored_counter_live[OF lk] by (simp add: counter_value_def)
  from a b show ?thesis by blast
qed

lemma get_post_repeated_views:
  assumes "lookup_key now s (''post:'' @ pid) = Some (h, d)"
  shows "stored_counter now (((\<lambda>x. fst (get_post now pid x)) ^^ k) s) pid Views
           = Some (counter_value Views h + int k)"
  using assms
proof (induction k arbitrary: s h)
  case 0
  then show ?case by (simp add: stored_counter_live)
next
  case (Suc k)
  have step: "lookup_key now (fst (get_post now pid s)) (''post:'' @ pid)
      = Some (h\<lparr>h_views := Some (counter_value Views h + 1)\<rparr>, d)"
    unfolding get_post_lookup using Suc.prems by simp
  have "stored_counter now (((\<lambda>x. fst (get_post now pid x)) ^^ k) (fst (get_post now pid s))) pid Views
      = Some (counter_value Views (h\<lparr>h_views := Some (counter_value Views h + 1)\<rparr>) + int k)"
    by (rule Suc.IH[OF step])
  then show ?case
    by (simp del: funpow.simps add: funpow_Suc_right counter_value_def)
qed

lemma get_post_endpoint_absent:
  assumes "lookup_key now s (''post:'' @ pid) = None"
  shows "get_post_endpoint now pid s = (s, Inl HTTP_404)"
  unfolding get_post_endpoint_def get_post_absent[OF assms] by simp

section \<open>The endpoints\<close>

lemma fst_recommend_post_endpoint:
  "fst (recommend_post_endpoint cfg now pid s) =
     (case snd (get_post now pid s) of
        None \<Rightarrow> fst (get_post now pid s)
      | Some post \<Rightarrow> fst (recommend_post cfg now pid (fst (get_post now pid s))))"
  by (simp add: recommend_post_endpoint_def split: prod.splits option.splits sum.splits)

lemma fst_report_post_endpoint:
  "fst (report_post_endpoint cfg now pid s) =
     (case snd (get_post now pid s) of
        None \<Rightarrow> fst (get_post now pid s)
      | Some post \<Rightarrow> fst (report_post cfg now pid (fst (get_post now pid s))))"
  by (simp add: report_post_endpoint_def split: prod.splits option.splits sum.splits)

lemma recommend_post_endpoint_blinded:
  assumes live: "lookup_key now s (''post:'' @ pid) = Some (h, d)"
      and b: "h_status h = Some ''blinded''"
  shows "recommend_post_endpoint cfg now pid s = (fst (get_post now pid s), Inl HTTP_500)"
proof -
  have g: "lookup_key now (fst (get_post now pid s)) (''post:'' @ pid)
      = Some (h\<lparr>h_views := Some (counter_value Views h + 1)\<rparr>, d)"
    unfolding get_post_lookup using live by simp
  have b': "h_status (h\<lparr>h_views := Some (counter_value Views h + 1)\<rparr>) = Some ''blinded''"
    using b by simp
  obtain snap where snap: "snd (get_post now pid s) = Some snap"
    using snd_get_post_live[OF live] by auto
  then have gp: "get_post now pid s = (fst (get_post now pid s), Some snap)"
    by (simp add: prod_eq_iff)
  show ?thesis
    unfolding recommend_post_endpoint_def
    by (subst gp) (simp add: recommend_post_blinded[OF g b'])
qed

section \<open>create_post and cleanup_expired_indexes\<close>

lemma create_post_lookup:
  "lookup_key now' (fst (create_post cfg u now c tags s)) q = lookup_key now' s q"
  by (simp add: create_post_def Let_def not_awaited_def)

text \<open>What the transaction of \<open>create_post\<close> does when it is executed.\<close>

lemma create_post_pipe_executed:
  assumes "0 < post_default_ttl cfg"
  shows "lookup_key now (pipeline_execute now (create_post_pipe cfg pid now c tags) s) (''post:'' @ pid)
           = Some (post_data pid now c tags, Some (now + post_default_ttl cfg))
       \<and> zscore (posts_active (pipeline_execute now (create_post_pipe cfg pid now c tags) s)) pid
           = Some now
       \<and> zscore (posts_expiring (pipeline_execute now (create_post_pipe cfg pid now c tags) s)) pid
           = Some (now + post_default_ttl cfg)"
proof -
  let ?key = "''post:'' @ pid"
  obtain h d where hw: "hash_for_write now s ?key = (h, d)" by (cases "hash_for_write now s ?key")
  note ne = hash_for_write_not_expired[OF hw]
  have m: "hset_fields (post_data pid now c tags) h = post_data pid now c tags"
    by (simp add: hset_fields_def post_data_def or_else_def)
  have s1: "redis_hset_mapping now ?key (post_data pid now c tags) s
      = s\<lparr>hashes := (hashes s)(?key := Some (post_data pid now c tags, d))\<rparr>"
    unfolding redis_hset_mapping_def hw by (simp add: m)
  have s2: "redis_expire now ?key (post_default_ttl cfg)
        (s\<lparr>hashes := (hashes s)(?key := Some (post_data pid now c tags, d))\<rparr>)
      = s\<lparr>hashes := (hashes s)(?key :=
            Some (post_data pid now c tags, Some (now + post_default_ttl cfg)))\<rparr>"
    using assms by (simp add: redis_expire_hashes_upd[OF ne])
  have ne2: "\<not> key_expired now (Some (now + post_default_ttl cfg))"
    using assms by (simp add: key_expired_def)
  have run: "pipeline_execute now (create_post_pipe cfg pid now c tags) s
      = redis_zadd Posts_expiring pid (now + post_default_ttl cfg)
          (redis_zadd Posts_active pid now
            (s\<lparr>hashes := (hashes s)(?key :=
               Some (post_data pid now c tags, Some (now + post_default_ttl cfg)))\<rparr>))"
    unfolding pipeline_execute_def create_post_pipe_def fold_simps exec_cmd.simps s1 s2 ..
  have l: "lookup_key now (pipeline_execute now (create_post_pipe cfg pid now c tags) s) ?key
           = Some (post_data pid now c tags, Some (now + post_default_ttl cfg))"
    unfolding run using ne2 by (simp add: lookup_key_hashes_upd)
  have z: "zscore (posts_active (pipeline_execute now (create_post_pipe cfg pid now c tags) s)) pid
           = Some now
       \<and> zscore (posts_expiring (pipeline_execute now (create_post_pipe cfg pid now c tags) s)) pid
           = Some (now + post_default_ttl cfg)"
    unfolding run by (simp add: redis_zadd_def zscore_def update_conv')
  from l z show ?thesis by blast
qed

text \<open>With the transaction awaited, the record and all four index entries would be there.\<close>

lemma create_post_awaited_writes:
  assumes "0 < post_default_ttl cfg"
  shows "lookup_key now (create_post_awaited cfg u now c tags s) (''post:'' @ ''post_'' @ take 12 u)
           = Some (post_data (''post_'' @ take 12 u) now c tags, Some (now + post_default_ttl cfg))
       \<and> zscore (posts_active (create_post_awaited cfg u now c tags s)) (''post_'' @ take 12 u)
           = Some now
       \<and> zscore (posts_expiring (create_post_awaited cfg u now c tags s)) (''post_'' @ take 12 u)
           = Some (now + post_default_ttl cfg)
       \<and> zscore (posts_rank_views (create_post_awaited cfg u now c tags s)) (''post_'' @ take 12 u)
           = Some 0
       \<and> zscore (posts_rank_recs (create_post_awaited cfg u now c tags s)) (''post_'' @ take 12 u)
           = Some 0"
proof -
  let ?pid = "''post_'' @ take 12 u"
  let ?s0 = "pipeline_execute now (create_post_pipe cfg ?pid now c tags) s"
  note p = create_post_pipe_executed[OF assms, of now ?pid c tags s]
  have run: "create_post_awaited cfg u now c tags s
      = redis_zadd Posts_rank_recs ?pid 0 (redis_zadd Posts_rank_views ?pid 0 ?s0)"
    by (simp add: create_post_awaited_def Let_def)
  have l: "lookup_key now (create_post_awaited cfg u now c tags s) (''post:'' @ ?pid)
      = lookup_key now ?s0 (''post:'' @ ?pid)"
    unfolding run by simp
  have z: "posts_active (create_post_awaited cfg u now c tags s) = posts_active ?s0"
    "posts_expiring (create_post_awaited cfg u now c tags s) = posts_expiring ?s0"
    unfolding run by (simp_all add: redis_zadd_def)
  have r: "zscore (posts_rank_views (create_post_awaited cfg u now c tags s)) ?pid = Some 0"
    "zscore (posts_rank_recs (create_post_awaited cfg u now c tags s)) ?pid = Some 0"
    unfolding run by (simp_all add: redis_zadd_def zscore_def update_conv')
  from p r show ?thesis unfolding l z by blast
qed

lemma cleanup_expired_indexes_unchanged: "cleanup_expired_indexes now s = s"
  by (simp add: cleanup_expired_indexes_def not_awaited_def Let_def)

lemma cleanup_pipe_executed_zget:
  "zscore (zget zn (pipeline_execute now (cleanup_pipe ids) s)) m =
     (if m \<in> set ids then None else zscore (zget zn s) m)"
proof (induction ids arbitrary: s)
  case Nil
  then show ?case by (simp add: pipeline_execute_def cleanup_pipe_def)
next
  case (Cons pid ids)
  let ?s1 = "redis_zrem Posts_rank_recs pid (redis_zrem Posts_rank_views pid
               (redis_zrem Posts_expiring pid (redis_zrem Posts_active pid s)))"
  have run: "pipeline_execute now (cleanup_pipe (pid # ids)) s
      = pipeline_execute now (cleanup_pipe ids) ?s1"
    by (simp add: pipeline_execute_def cleanup_pipe_def)
  have one: "zscore (zget zn ?s1) m = (if m = pid then None else zscore (zget zn s) m)"
    by (cases zn) (simp_all add: zget_zrem zscore_def delete_conv')
  show ?case
    unfolding run Cons.IH one by auto
qed

text \<open>What the sweep would do with the transaction awaited.\<close>

lemma cleanup_awaited_removes:
  assumes "zscore (posts_expiring s) m = Some sc" and "0 \<le> sc" and "sc \<le> now"
  shows "zscore (zget zn (cleanup_expired_indexes_awaited now s)) m = None"
proof -
  have "(m, sc) \<in> set (posts_expiring s)"
    using assms(1) by (simp add: zscore_def map_of_SomeD)
  then have mem: "m \<in> set (redis_zrangebyscore Posts_expiring 0 now s)"
    using assms(2,3) by (auto simp: zrangebyscore_member)
  then have "redis_zrangebyscore Posts_expiring 0 now s \<noteq> []" by auto
  then show ?thesis
    using mem by (simp add: cleanup_expired_indexes_awaited_def Let_def cleanup_pipe_executed_zget)
qed

section \<open>Views never go down\<close>

lemma recommend_script_views:
  assumes "lookup_key now s q = Some (h0, d0)"
      and "lookup_key now (fst (recommend_script now key T E H s)) q = Some (h1, d1)"
  shows "counter_value Views h1 = counter_value Views h0"
proof (cases "h_status (redis_hgetall now s key) = Some ''blinded''")
  case True
  with assms show ?thesis by (simp add: recommend_script_def)
next
  case False
  obtain h d where hw: "hash_for_write now s key = (h, d)" by (cases "hash_for_write now s key")
  obtain s1 recs where inc: "redis_hincrby now key Recommendations 1 s = (s1, recs)"
    by (cases "redis_hincrby now key Recommendations 1 s")
  have l1: "lookup_key now s1 q =
     (if q = key then Some (counter_set Recommendations (counter_value Recommendations h + 1) h, d)
      else lookup_key now s q)"
    using lookup_key_hincrby[OF hw, of Recommendations 1 q] inc by simp
  show ?thesis
  proof (cases "q = key")
    case qk: True
    with assms(1) hw have "h = h0" by (simp add: hash_for_write_def)
    then show ?thesis
      using assms(2) False inc l1 qk
      by (auto simp: recommend_script_def Let_def lookup_key_expire counter_value_def
          split: if_splits)
  next
    case qk: False
    then show ?thesis
      using assms False inc l1
      by (auto simp: recommend_script_def Let_def lookup_key_expire split: if_splits)
  qed
qed

lemma report_script_views:
  assumes "lookup_key now s q = Some (h0, d0)"
      and "lookup_key now (fst (report_script now key b s)) q = Some (h1, d1)"
  shows "counter_value Views h1 = counter_value Views h0"
proof -
  obtain h d where hw: "hash_for_write now s key = (h, d)" by (cases "hash_for_write now s key")
  obtain s1 reports where inc: "redis_hincrby now key Reports 1 s = (s1, reports)"
    by (cases "redis_hincrby now key Reports 1 s")
  have l1: "lookup_key now s1 q =
     (if q = key then Some (counter_set Reports (counter_value Reports h + 1) h, d)
      else lookup_key now s q)"
    using lookup_key_hincrby[OF hw, of Reports 1 q] inc by simp
  have hw1: "hash_for_write now s1 key = (counter_set Reports (counter_value Reports h + 1) h, d)"
    using l1[of ] lookup_key_hincrby[OF hw, of Reports 1 key] inc
    by (simp add: hash_for_write_def)
  have h0: "q = key \<Longrightarrow> h = h0"
    using assms(1) hw by (simp add: hash_for_write_def)
  show ?thesis
    using assms inc l1 h0 lookup_key_hset_status[OF hw1, of "''blinded''" q]
    by (auto simp: report_script_def Let_def counter_value_def split: if_splits)
qed

lemma get_post_keeps_views:
  assumes "lookup_key now s q = Some (h, d)"
  shows "\<exists>h'. lookup_key now (fst (get_post now pid s)) q = Some (h', d)
           \<and> counter_value Views h \<le> counter_value Views h'"
  using assms by (auto simp: get_post_lookup counter_value_def)

lemma get_active_loop_keeps_views:
  assumes "lookup_key now s q = Some (h, d)"
  shows "\<exists>h'. lookup_key now (fst (get_active_loop now ids s posts)) q = Some (h', d)
           \<and> counter_value Views h \<le> counter_value Views h'"
  using assms
proof (induction ids arbitrary: s posts h)
  case Nil
  then show ?case by simp
next
  case (Cons pid ids)
  obtain s1 r where g: "get_post now pid s = (s1, r)" by (cases "get_post now pid s")
  from get_post_keeps_views[OF Cons.prems, of pid] g
  obtain h1 where h1: "lookup_key now s1 q = Some (h1, d)"
    "counter_value Views h \<le> counter_value Views h1" by auto
  have "\<exists>h'. lookup_key now (fst (get_active_loop now ids s1 ps)) q = Some (h', d)
           \<and> counter_value Views h \<le> counter_value Views h'" for ps
    using Cons.IH[OF h1(1), of ps] h1(2) by force
  then show ?case
    by (simp add: g split: option.splits)
qed

lemma get_ranking_loop_keeps_views:
  assumes "lookup_key now s q = Some (h, d)"
  shows "\<exists>h'. lookup_key now (fst (get_ranking_loop now ids s ranking)) q = Some (h', d)
           \<and> counter_value Views h \<le> counter_value Views h'"
  using assms
proof (induction ids arbitrary: s ranking h)
  case Nil
  then show ?case by simp
next
  case (Cons p ids)
  obtain pid score where p: "p = (pid, score)" by (cases p)
  obtain s1 r where g: "get_post now pid s = (s1, r)" by (cases "get_post now pid s")
  from get_post_keeps_views[OF Cons.prems, of pid] g
  obtain h1 where h1: "lookup_key now s1 q = Some (h1, d)"
    "counter_value Views h \<le> counter_value Views h1" by auto
  have "\<exists>h'. lookup_key now (fst (get_ranking_loop now ids s1 ps)) q = Some (h', d)
           \<and> counter_value Views h \<le> counter_value Views h'" for ps
    using Cons.IH[OF h1(1), of ps] h1(2) by force
  then show ?case
    by (simp add: p g split: option.splits)
qed

lemma fst_get_active_posts:
  "fst (get_active_posts now page per_page s) =
     fst (get_active_loop now
            (map fst (redis_zrevrange Posts_active ((page - 1) * per_page)
                        ((page - 1) * per_page + per_page - 1) s)) s [])"
  by (simp add: get_active_posts_def Let_def split: prod.splits)

lemma run_call_views_mono:
  assumes "lookup_key now s q = Some (h0, d0)"
      and "lookup_key now (run_call cfg now call s) q = Some (h1, d1)"
  shows "counter_value Views h0 \<le> counter_value Views h1"
proof (cases call)
  case (Create_post u c tags)
  with assms show ?thesis by (simp add: create_post_lookup)
next
  case (Get_post pid)
  with assms get_post_keeps_views[OF assms(1), of pid] show ?thesis by auto
next
  case (Get_active_posts page per_page)
  with assms(2)
    get_active_loop_keeps_views[OF assms(1), of
      "map fst (redis_zrevrange Posts_active ((page - 1) * per_page)
                  ((page - 1) * per_page + per_page - 1) s)" "[]"]
  show ?thesis
    by (auto simp: fst_get_active_posts)
next
  case (Recommend_post pid)
  with assms recommend_script_views[of now s q h0 d0 _ _ _ _ h1 d1] show ?thesis
    by (simp add: fst_recommend_post)
next
  case (Report_post pid)
  with assms report_script_views[of now s q h0 d0 _ _ h1 d1] show ?thesis
    by (simp add: fst_report_post)
next
  case Cleanup_expired_indexes
  with assms show ?thesis by (simp add: cleanup_expired_indexes_unchanged)
next
  case (Get_ranking rt limit)
  with assms(2)
    get_ranking_loop_keeps_views[OF assms(1), of
      "redis_zrevrange (rank_key rt) 0 (limit - 1) s" "[]"]
  show ?thesis
    by (auto simp: get_ranking_def)
qed

section \<open>The claims\<close>

subsection \<open>Recommend: count, extension and TTL\<close>

text \<open>
  Claim C1, as the code has it. On a post that exists and is not blinded (its counter and
  the extension duration not negative), \<open>recommend_post\<close> adds 1 to \<open>recommendations\<close> and
  returns success with the new count. When the new count is a multiple of the threshold
  and the remaining TTL is positive, the response says "extended", the key's TTL becomes
  the remaining TTL plus the extension, and that sum is the TTL returned. When the new
  count is not a multiple of the threshold, the response does not say "extended" and the
  TTL, returned and stored, is the remaining one.
\<close>

theorem recommend_post_on_active_post:
  assumes live: "lookup_key now s (''post:'' @ pid) = Some (h, d)"
      and nb: "h_status h \<noteq> Some ''blinded''"
      and pos: "0 \<le> counter_value Recommendations h"
      and ext: "0 \<le> recommendation_extension_ttl cfg"
      and n: "n = counter_value Recommendations h + 1"
      and t: "t = redis_ttl now s (''post:'' @ pid)"
      and T: "T = recommendation_extension_threshold cfg"
      and E: "E = recommendation_extension_ttl cfg"
  shows "\<exists>s' r. recommend_post cfg now pid s = (s', Inr r)
           \<and> rr_success r \<and> rr_recommendations r = n
           \<and> stored_counter now s' pid Recommendations = Some n
           \<and> (T \<noteq> 0 \<and> n mod T = 0 \<and> 0 < t \<longrightarrow>
                 extended r \<and> rr_ttl_seconds r = Some (t + E)
                 \<and> redis_ttl now s' (''post:'' @ pid) = t + E)
           \<and> (\<not> (T \<noteq> 0 \<and> n mod T = 0) \<longrightarrow>
                 \<not> extended r \<and> rr_ttl_seconds r = Some t
                 \<and> redis_ttl now s' (''post:'' @ pid) = t)"
proof -
  define se where "se = (T \<noteq> 0 \<and> n mod T = 0)"
  define r where "r = \<lparr>rr_success = True, rr_recommendations = n,
               rr_ttl_seconds = Some (t + (if se then E else 0)),
               rr_message = (if se then Some (Msg_extended T (E div 60)) else None)\<rparr>"
  define s' where "s' = fst (recommend_post cfg now pid s)"
  have res: "recommend_post cfg now pid s = (s', Inr r)"
    unfolding s'_def r_def se_def recommend_post_live[OF live nb pos]
    by (simp add: Let_def n t T E)
  have lk: "lookup_key now s' (''post:'' @ pid) =
      Some (h\<lparr>h_recommendations := Some n\<rparr>, if se \<and> 0 < t then Some (now + (t + E)) else d)"
    unfolding s'_def se_def
    using recommend_post_live_lookup[OF live nb pos ext] by (simp add: Let_def n t T E)
  have t': "t = (case d of None \<Rightarrow> - 1 | Some w \<Rightarrow> w - now)"
    using t redis_ttl_live[OF live] by simp
  have stored: "stored_counter now s' pid Recommendations = Some n"
    unfolding stored_counter_def lk by (simp add: counter_value_def)
  have ttl_ext: "redis_ttl now s' (''post:'' @ pid) = t + E" if "se" "0 < t"
    unfolding redis_ttl_def lk using that by simp
  have ttl_same: "redis_ttl now s' (''post:'' @ pid) = t" if "\<not> se"
    unfolding redis_ttl_def lk using that by (simp add: t' split: option.splits)
  have r1: "rr_success r \<and> rr_recommendations r = n" by (simp add: r_def)
  have r2: "extended r \<and> rr_ttl_seconds r = Some (t + E)" if "se"
    using that by (simp add: r_def extended_def)
  have r3: "\<not> extended r \<and> rr_ttl_seconds r = Some t" if "\<not> se"
    using that by (simp add: r_def extended_def)
  have "recommend_post cfg now pid s = (s', Inr r)
           \<and> rr_success r \<and> rr_recommendations r = n
           \<and> stored_counter now s' pid Recommendations = Some n
           \<and> (se \<and> 0 < t \<longrightarrow>
                 extended r \<and> rr_ttl_seconds r = Some (t + E)
                 \<and> redis_ttl now s' (''post:'' @ pid) = t + E)
           \<and> (\<not> se \<longrightarrow>
                 \<not> extended r \<and> rr_ttl_seconds r = Some t
                 \<and> redis_ttl now s' (''post:'' @ pid) = t)"
    using res r1 stored ttl_ext ttl_same r2 r3 by blast
  then show ?thesis
    unfolding se_def by (intro exI[of _ s'] exI[of _ r]) simp
qed

text \<open>Both cases at the default settings: the 100th recommendation and the 5th.\<close>

theorem recommend_post_on_active_post_witness:
  "(\<exists>s' r. recommend_post default_settings 100 ''p'' store_recs_99 = (s', Inr r)
      \<and> rr_success r \<and> rr_recommendations r = 100
      \<and> stored_counter 100 s' ''p'' Recommendations = Some 100
      \<and> extended r \<and> rr_ttl_seconds r = Some 800
      \<and> redis_ttl 100 s' ''post:p'' = 800)
   \<and> (\<exists>s' r. recommend_post default_settings 100 ''p'' store_recs_4 = (s', Inr r)
      \<and> rr_success r \<and> rr_recommendations r = 5
      \<and> stored_counter 100 s' ''p'' Recommendations = Some 5
      \<and> \<not> extended r \<and> rr_ttl_seconds r = Some 500
      \<and> redis_ttl 100 s' ''post:p'' = 500)"
proof -
  have ext: "0 \<le> recommendation_extension_ttl default_settings"
    by (simp add: default_settings_def)
  have T: "100 = recommendation_extension_threshold default_settings"
    by (simp add: default_settings_def)
  have E: "300 = recommendation_extension_ttl default_settings"
    by (simp add: default_settings_def)
  have nba: "h_status (post_p\<lparr>h_recommendations := Some 99\<rparr>) \<noteq> Some ''blinded''"
    by (simp add: post_p_simps)
  have posa: "0 \<le> counter_value Recommendations (post_p\<lparr>h_recommendations := Some 99\<rparr>)"
    by (simp add: counter_value_def)
  have na: "100 = counter_value Recommendations (post_p\<lparr>h_recommendations := Some 99\<rparr>) + 1"
    by (simp add: counter_value_def)
  have ta: "500 = redis_ttl 100 store_recs_99 (''post:'' @ ''p'')"
    using redis_ttl_live[OF store_recs_99_live] by simp
  have nbb: "h_status (post_p\<lparr>h_recommendations := Some 4\<rparr>) \<noteq> Some ''blinded''"
    by (simp add: post_p_simps)
  have posb: "0 \<le> counter_value Recommendations (post_p\<lparr>h_recommendations := Some 4\<rparr>)"
    by (simp add: counter_value_def)
  have nb: "5 = counter_value Recommendations (post_p\<lparr>h_recommendations := Some 4\<rparr>) + 1"
    by (simp add: counter_value_def)
  have tb: "500 = redis_ttl 100 store_recs_4 (''post:'' @ ''p'')"
    using redis_ttl_live[OF store_recs_4_live] by simp
  have A: "\<exists>s' r. recommend_post default_settings 100 ''p'' store_recs_99 = (s', Inr r)
      \<and> rr_success r \<and> rr_recommendations r = 100
      \<and> stored_counter 100 s' ''p'' Recommendations = Some 100
      \<and> extended r \<and> rr_ttl_seconds r = Some 800
      \<and> redis_ttl 100 s' ''post:p'' = 800"
    using recommend_post_on_active_post[OF store_recs_99_live nba posa ext na ta T E] by auto
  have B: "\<exists>s' r. recommend_post default_settings 100 ''p'' store_recs_4 = (s', Inr r)
      \<and> rr_success r \<and> rr_recommendations r = 5
      \<and> stored_counter 100 s' ''p'' Recommendations = Some 5
      \<and> \<not> extended r \<and> rr_ttl_seconds r = Some 500
      \<and> redis_ttl 100 s' ''post:p'' = 500"
    using recommend_post_on_active_post[OF store_recs_4_live nbb posb ext nb tb T E] by auto
  from A B show ?thesis by blast
qed

text \<open>
  Claim C1 as stated fails: 100 seconds after creation the 100th recommendation meets a
  remaining TTL of 500 and returns the TTL 800, not default + extension = 900.
\<close>

theorem recommend_post_ttl_counterexample:
  "snd (recommend_post default_settings 100 ''p'' store_recs_99) =
     Inr \<lparr>rr_success = True, rr_recommendations = 100, rr_ttl_seconds = Some 800,
          rr_message = Some (Msg_extended 100 5)\<rparr>
   \<and> redis_ttl 100 store_recs_99 ''post:p'' = 500
   \<and> (100 :: int) mod recommendation_extension_threshold default_settings = 0
   \<and> post_default_ttl default_settings + recommendation_extension_ttl default_settings = 900"
proof -
  have nb: "h_status (post_p\<lparr>h_recommendations := Some 99\<rparr>) \<noteq> Some ''blinded''"
    by (simp add: post_p_simps)
  have pos: "0 \<le> counter_value Recommendations (post_p\<lparr>h_recommendations := Some 99\<rparr>)"
    by (simp add: counter_value_def)
  have ttl: "redis_ttl 100 store_recs_99 (''post:'' @ ''p'') = 500"
    using redis_ttl_live[OF store_recs_99_live] by simp
  show ?thesis
    using ttl recommend_post_live[OF store_recs_99_live nb pos, of default_settings]
    by (simp add: Let_def default_settings_def counter_value_def)
qed

subsection \<open>Recommend on a blinded post\<close>

text \<open>
  Claim C2 against the code. On a blinded post the script returns a table of two elements,
  \<open>recommend_post\<close> unpacks three and raises \<open>ValueError\<close> before its blinded branch; the
  endpoint answers with status 500. Nothing is incremented, but no response with
  \<open>success = False\<close> and the current count is returned.
\<close>

theorem recommend_post_blinded_raises:
  "recommend_post default_settings 100 ''p'' store_blinded = (store_blinded, Inl ValueError)
   \<and> snd (recommend_post_endpoint default_settings 100 ''p'' store_blinded) = Inl HTTP_500
   \<and> stored_status 100 store_blinded ''p'' = Some ''blinded''
   \<and> stored_counter 100 store_blinded ''p'' Recommendations = Some 5"
proof -
  have b: "h_status (post_p\<lparr>h_recommendations := Some 5, h_reports := Some 50,
              h_status := Some ''blinded''\<rparr>) = Some ''blinded''"
    by simp
  have st: "stored_status 100 store_blinded ''p'' = Some ''blinded''"
    using store_blinded_live by (simp add: stored_status_def redis_hgetall_def)
  have cnt: "stored_counter 100 store_blinded ''p'' Recommendations = Some 5"
    using store_blinded_live by (simp add: stored_counter_def counter_value_def)
  from recommend_post_blinded[OF store_blinded_live b, of default_settings]
    recommend_post_endpoint_blinded[OF store_blinded_live b, of default_settings] st cnt
  show ?thesis by simp
qed

subsection \<open>Report\<close>

text \<open>
  Claim C3. On every post that exists, \<open>report_post\<close> adds 1 to \<open>reports\<close> and returns
  the new count; its response says "blinded" exactly when the new count has reached the
  blind threshold, and then the stored status is \<open>blinded\<close> after the same script run. On a
  post that is already blinded only the counter changes. For consecutive reports of a post
  whose count starts at 0, the call number \<open>i + 1\<close> is flagged exactly when the threshold is
  at most \<open>i + 1\<close>: with the default threshold 50, the 50th call is the first.
\<close>

theorem report_post_counts_and_blinds:
  assumes "lookup_key now s (''post:'' @ pid) = Some (h, d)"
      and "n = counter_value Reports h + 1"
      and "b = report_blind_threshold cfg"
  shows "(\<exists>s' r. report_post cfg now pid s = (s', Inr r)
            \<and> rp_success r \<and> rp_reports r = n \<and> blinded r = (b \<le> n)
            \<and> stored_counter now s' pid Reports = Some n
            \<and> stored_status now s' pid = (if b \<le> n then Some ''blinded'' else h_status h)
            \<and> (h_status h = Some ''blinded'' \<longrightarrow>
                 lookup_key now s' (''post:'' @ pid) = Some (h\<lparr>h_reports := Some n\<rparr>, d)))
       \<and> (counter_value Reports h = 0 \<and> list_all (\<lambda>t. \<not> key_expired t d) nows \<longrightarrow>
            snd (report_seq cfg pid nows s) = map (\<lambda>i. b \<le> int i + 1) [0..<length nows])"
proof -
  note live = lookup_key_live[OF assms(1)]
  have one: "\<exists>s' r. report_post cfg now pid s = (s', Inr r)
            \<and> rp_success r \<and> rp_reports r = n \<and> blinded r = (b \<le> n)
            \<and> stored_counter now s' pid Reports = Some n
            \<and> stored_status now s' pid = (if b \<le> n then Some ''blinded'' else h_status h)
            \<and> (h_status h = Some ''blinded'' \<longrightarrow>
                 lookup_key now s' (''post:'' @ pid) = Some (h\<lparr>h_reports := Some n\<rparr>, d))"
    using live assms(2,3)
    by (simp add: report_post_live[OF assms(1)] Let_def blinded_def stored_counter_def
        stored_status_def redis_hgetall_def lookup_key_hashes_upd counter_value_def)
  have many: "counter_value Reports h = 0 \<and> list_all (\<lambda>t. \<not> key_expired t d) nows \<longrightarrow>
            snd (report_seq cfg pid nows s) = map (\<lambda>i. b \<le> int i + 1) [0..<length nows]"
    using report_seq_flags[of s pid h d nows cfg] live assms(3) by simp
  from one many show ?thesis by blast
qed

text \<open>The 50th report, a report of a post already blinded, and 50 reports in a row.\<close>

theorem report_post_counts_and_blinds_witness:
  "(\<exists>s' r. report_post default_settings 10 ''p''
              (example_store (post_p\<lparr>h_reports := Some 49\<rparr>) (Some 600)) = (s', Inr r)
      \<and> rp_success r \<and> rp_reports r = 50 \<and> blinded r
      \<and> stored_counter 10 s' ''p'' Reports = Some 50
      \<and> stored_status 10 s' ''p'' = Some ''blinded'')
   \<and> (\<exists>s' r. report_post default_settings 10 ''p''
              (example_store (post_p\<lparr>h_reports := Some 50, h_status := Some ''blinded''\<rparr>) (Some 600))
              = (s', Inr r)
      \<and> rp_reports r = 51 \<and> blinded r
      \<and> lookup_key 10 s' ''post:p'' =
          Some (post_p\<lparr>h_reports := Some 51, h_status := Some ''blinded''\<rparr>, Some 600))
   \<and> snd (report_seq default_settings ''p'' (replicate 50 10) (example_store post_p (Some 600)))
       = replicate 49 False @ [True]"
proof -
  have e: "\<not> key_expired 10 (Some 600)" by (simp add: key_expired_def)
  have a: "lookup_key 10 (example_store (post_p\<lparr>h_reports := Some 49\<rparr>) (Some 600)) (''post:'' @ ''p'')
             = Some (post_p\<lparr>h_reports := Some 49\<rparr>, Some 600)"
    by (simp add: example_store_lookup e)
  have b: "lookup_key 10 (example_store (post_p\<lparr>h_reports := Some 50, h_status := Some ''blinded''\<rparr>)
             (Some 600)) (''post:'' @ ''p'')
             = Some (post_p\<lparr>h_reports := Some 50, h_status := Some ''blinded''\<rparr>, Some 600)"
    by (simp add: example_store_lookup e)
  have c: "lookup_key 10 (example_store post_p (Some 600)) (''post:'' @ ''p'') = Some (post_p, Some 600)"
    by (simp add: example_store_lookup e)
  have all: "list_all (\<lambda>t. \<not> key_expired t (Some 600)) (replicate 50 10)"
    by (simp add: list_all_iff e)
  have flags: "map (\<lambda>i. (50::int) \<le> int i + 1) [0..<50] = replicate 49 False @ [True]"
    by code_simp
  have b50: "50 = report_blind_threshold default_settings"
    by (simp add: default_settings_def)
  have na: "50 = counter_value Reports (post_p\<lparr>h_reports := Some 49\<rparr>) + 1"
    by (simp add: counter_value_def)
  have nb: "51 = counter_value Reports (post_p\<lparr>h_reports := Some 50, h_status := Some ''blinded''\<rparr>) + 1"
    by (simp add: counter_value_def)
  have nc: "1 = counter_value Reports post_p + 1"
    by (simp add: counter_value_def post_p_def post_data_def)
  have zc: "counter_value Reports post_p = 0"
    by (simp add: counter_value_def post_p_def post_data_def)
  have A: "\<exists>s' r. report_post default_settings 10 ''p''
              (example_store (post_p\<lparr>h_reports := Some 49\<rparr>) (Some 600)) = (s', Inr r)
      \<and> rp_success r \<and> rp_reports r = 50 \<and> blinded r
      \<and> stored_counter 10 s' ''p'' Reports = Some 50
      \<and> stored_status 10 s' ''p'' = Some ''blinded''"
    using report_post_counts_and_blinds[OF a na b50, of "[]"] by auto
  have B: "\<exists>s' r. report_post default_settings 10 ''p''
              (example_store (post_p\<lparr>h_reports := Some 50, h_status := Some ''blinded''\<rparr>) (Some 600))
              = (s', Inr r)
      \<and> rp_reports r = 51 \<and> blinded r
      \<and> lookup_key 10 s' ''post:p'' =
          Some (post_p\<lparr>h_reports := Some 51, h_status := Some ''blinded''\<rparr>, Some 600)"
    using report_post_counts_and_blinds[OF b nb b50, of "[]"] by auto
  have "snd (report_seq default_settings ''p'' (replicate 50 10) (example_store post_p (Some 600)))
       = map (\<lambda>i. (50::int) \<le> int i + 1) [0..<length (replicate 50 (10::int))]"
    using report_post_counts_and_blinds[OF c nc b50, of "replicate 50 10"] zc all by blast
  then have C: "snd (report_seq default_settings ''p'' (replicate 50 10) (example_store post_p (Some 600)))
       = replicate 49 False @ [True]"
    by (simp only: length_replicate flags)
  from A B C show ?thesis by blast
qed

subsection \<open>Create\<close>




subsection \<open>Ranking scores after a read\<close>

text \<open>
  Claim C5 against the code. \<open>get_post\<close> reads the fields, increments \<open>views\<close> and the
  ranking score together, and then sets the ranking score to the value it read before the
  increment: on a post with 0 views the stored counter becomes 1 and the rank-views score
  stays 0 (and the snapshot returned says 0 views).
\<close>

theorem get_post_rank_views_behind:
  "stored_counter 100 store_fresh ''p'' Views = Some 0
   \<and> zscore (posts_rank_views store_fresh) ''p'' = Some 0
   \<and> stored_counter 100 (fst (get_post 100 ''p'' store_fresh)) ''p'' Views = Some 1
   \<and> zscore (posts_rank_views (fst (get_post 100 ''p'' store_fresh))) ''p'' = Some 0
   \<and> map_option sn_views (snd (get_post 100 ''p'' store_fresh)) = Some 0"
proof -
  have cv: "counter_value Views post_p = 0"
    by (simp add: counter_value_def post_p_simps)
  have a: "stored_counter 100 store_fresh ''p'' Views = Some 0"
    using stored_counter_live[OF store_fresh_live, of Views] cv by simp
  have b: "zscore (posts_rank_views store_fresh) ''p'' = Some 0"
    by (simp add: zscore_def store_fresh_def example_store_def cv)
  have lk: "lookup_key 100 (fst (get_post 100 ''p'' store_fresh)) (''post:'' @ ''p'')
      = Some (post_p\<lparr>h_views := Some 1\<rparr>, Some 600)"
    unfolding get_post_lookup using store_fresh_live cv by simp
  have c: "stored_counter 100 (fst (get_post 100 ''p'' store_fresh)) ''p'' Views = Some 1"
    using stored_counter_live[OF lk, of Views] by (simp add: counter_value_def)
  have d: "zscore (posts_rank_views (fst (get_post 100 ''p'' store_fresh))) ''p'' = Some 0"
    unfolding get_post_live[OF store_fresh_live]
    by (simp add: zscore_def redis_zadd_def cv update_conv')
  have e: "map_option sn_views (snd (get_post 100 ''p'' store_fresh)) = Some 0"
    unfolding get_post_live[OF store_fresh_live] by (simp add: cv)
  from a b c d e show ?thesis by simp
qed

subsection \<open>The expiring index after an extension\<close>

text \<open>
  Claim C6 against the code. The 100th recommendation of a post with 500 seconds left
  extends the key's TTL to 800, a deadline of 900, and the entry of the expiring index
  keeps its score 600: the script never writes that index.
\<close>

theorem recommend_post_extension_leaves_expiring:
  "redis_ttl 100 store_recs_99 ''post:p'' = 500
   \<and> zscore (posts_expiring store_recs_99) ''p'' = Some 600
   \<and> redis_ttl 100 (fst (recommend_post default_settings 100 ''p'' store_recs_99)) ''post:p'' = 800
   \<and> zscore (posts_expiring (fst (recommend_post default_settings 100 ''p'' store_recs_99))) ''p''
       = Some 600"
proof -
  have ext: "0 \<le> recommendation_extension_ttl default_settings"
    by (simp add: default_settings_def)
  have nba: "h_status (post_p\<lparr>h_recommendations := Some 99\<rparr>) \<noteq> Some ''blinded''"
    by (simp add: post_p_simps)
  have posa: "0 \<le> counter_value Recommendations (post_p\<lparr>h_recommendations := Some 99\<rparr>)"
    by (simp add: counter_value_def)
  have ta: "redis_ttl 100 store_recs_99 (''post:'' @ ''p'') = 500"
    using redis_ttl_live[OF store_recs_99_live] by simp
  have lk: "lookup_key 100 (fst (recommend_post default_settings 100 ''p'' store_recs_99)) (''post:'' @ ''p'')
      = Some (post_p\<lparr>h_recommendations := Some 100\<rparr>, Some 900)"
    using recommend_post_live_lookup[OF store_recs_99_live nba posa ext] ta
    by (simp add: Let_def default_settings_def counter_value_def)
  have ttl': "redis_ttl 100 (fst (recommend_post default_settings 100 ''p'' store_recs_99)) (''post:'' @ ''p'') = 800"
    unfolding redis_ttl_def lk by simp
  have z: "zscore (posts_expiring store_recs_99) ''p'' = Some 600"
    by (simp add: zscore_def store_recs_99_def example_store_def)
  show ?thesis
    using ta ttl' z by (simp add: recommend_post_expiring_unchanged)
qed

subsection \<open>The sweep\<close>

text \<open>
  Claim C7 against the code. With \<open>p\<close> in the expiring index at score 600, the sweep at
  time 1000 finds the candidate \<open>p\<close> and leaves the store as it was, \<open>p\<close> still in all four
  indexes: its transaction is never awaited. Awaited, it would remove the entry.
\<close>

theorem cleanup_removes_nothing:
  "zscore (posts_expiring store_fresh) ''p'' = Some 600
   \<and> redis_zrangebyscore Posts_expiring 0 1000 store_fresh = [''p'']
   \<and> cleanup_expired_indexes 1000 store_fresh = store_fresh
   \<and> zscore (posts_active (cleanup_expired_indexes 1000 store_fresh)) ''p'' = Some 0
   \<and> zscore (posts_expiring (cleanup_expired_indexes 1000 store_fresh)) ''p'' = Some 600
   \<and> zscore (posts_rank_views (cleanup_expired_indexes 1000 store_fresh)) ''p'' = Some 0
   \<and> zscore (posts_rank_recs (cleanup_expired_indexes 1000 store_fresh)) ''p'' = Some 0
   \<and> zscore (posts_expiring (cleanup_expired_indexes_awaited 1000 store_fresh)) ''p'' = None"
proof -
  have cv: "counter_value Views post_p = 0" "counter_value Recommendations post_p = 0"
    by (simp_all add: counter_value_def post_p_simps)
  have a: "zscore (posts_expiring store_fresh) ''p'' = Some 600"
    by (simp add: zscore_def store_fresh_def example_store_def)
  have b: "redis_zrangebyscore Posts_expiring 0 1000 store_fresh = [''p'']"
    by (simp add: redis_zrangebyscore_def zsorted_def store_fresh_def example_store_def)
  have c: "cleanup_expired_indexes 1000 store_fresh = store_fresh"
    by (rule cleanup_expired_indexes_unchanged)
  have d: "zscore (posts_active store_fresh) ''p'' = Some 0"
    "zscore (posts_rank_views store_fresh) ''p'' = Some 0"
    "zscore (posts_rank_recs store_fresh) ''p'' = Some 0"
    by (simp_all add: zscore_def store_fresh_def example_store_def cv)
  have e: "zscore (posts_expiring (cleanup_expired_indexes_awaited 1000 store_fresh)) ''p'' = None"
    using cleanup_awaited_removes[OF a, of 1000 Posts_expiring] by simp
  from a b d e show ?thesis unfolding c by simp
qed

subsection \<open>Missing ids\<close>

text \<open>
  Claim C8. For an id whose key is missing from the store (never written, or expired), the
  recommend endpoint and the report endpoint answer 404 and return the store as it was.
\<close>

theorem endpoints_not_found:
  assumes "lookup_key now s (''post:'' @ pid) = None"
  shows "recommend_post_endpoint cfg now pid s = (s, Inl HTTP_404)
       \<and> report_post_endpoint cfg now pid s = (s, Inl HTTP_404)"
  unfolding recommend_post_endpoint_def report_post_endpoint_def get_post_absent[OF assms]
  by simp

text \<open>A key never written, and a key whose deadline has passed.\<close>

theorem endpoints_not_found_witness:
  "lookup_key 100 empty_store ''post:p'' = None
   \<and> recommend_post_endpoint default_settings 100 ''p'' empty_store = (empty_store, Inl HTTP_404)
   \<and> report_post_endpoint default_settings 100 ''p'' empty_store = (empty_store, Inl HTTP_404)
   \<and> lookup_key 100 store_expired ''post:p'' = None
   \<and> recommend_post_endpoint default_settings 100 ''p'' store_expired = (store_expired, Inl HTTP_404)
   \<and> report_post_endpoint default_settings 100 ''p'' store_expired = (store_expired, Inl HTTP_404)"
proof -
  have a: "lookup_key 100 empty_store (''post:'' @ ''p'') = None"
    by (simp add: lookup_key_def empty_store_def)
  have b: "lookup_key 100 store_expired (''post:'' @ ''p'') = None"
    by (simp add: store_expired_def example_store_lookup key_expired_def)
  from endpoints_not_found[OF a, of default_settings] endpoints_not_found[OF b, of default_settings] a b
  show ?thesis by simp
qed

subsection \<open>Get by id\<close>

text \<open>
  Claim C9. For an id whose key exists, \<open>get_post\<close> returns a snapshot, the stored
  \<open>views\<close> counter is one more than before (and \<open>k\<close> more after \<open>k\<close> calls in a row), and the
  snapshot's \<open>ttl_seconds\<close> is the maximum of 0 and the key's TTL. For a missing key it
  returns nothing and the endpoint answers 404. No call of the service lowers the \<open>views\<close>
  of a record that exists before and after it.
\<close>

theorem get_post_counts_view_and_reads_ttl:
  "(\<forall>h d. lookup_key now s (''post:'' @ pid) = Some (h, d) \<longrightarrow>
      (\<exists>s' snap. get_post now pid s = (s', Some snap)
         \<and> stored_counter now s' pid Views = Some (counter_value Views h + 1)
         \<and> sn_ttl_seconds snap = max 0 (redis_ttl now s (''post:'' @ pid)))
      \<and> stored_counter now (((\<lambda>x. fst (get_post now pid x)) ^^ k) s) pid Views
           = Some (counter_value Views h + int k))
   \<and> (lookup_key now s (''post:'' @ pid) = None \<longrightarrow>
         get_post now pid s = (s, None) \<and> get_post_endpoint now pid s = (s, Inl HTTP_404))
   \<and> (\<forall>call q h0 d0 h1 d1.
         lookup_key now s q = Some (h0, d0)
         \<and> lookup_key now (run_call cfg now call s) q = Some (h1, d1)
         \<longrightarrow> counter_value Views h0 \<le> counter_value Views h1)"
proof (intro conjI allI impI)
  fix h d
  assume live: "lookup_key now s (''post:'' @ pid) = Some (h, d)"
  have lk: "lookup_key now (fst (get_post now pid s)) (''post:'' @ pid)
      = Some (h\<lparr>h_views := Some (counter_value Views h + 1)\<rparr>, d)"
    unfolding get_post_lookup using live by simp
  have "stored_counter now (fst (get_post now pid s)) pid Views = Some (counter_value Views h + 1)"
    unfolding stored_counter_live[OF lk] by (simp add: counter_value_def)
  then show "\<exists>s' snap. get_post now pid s = (s', Some snap)
         \<and> stored_counter now s' pid Views = Some (counter_value Views h + 1)
         \<and> sn_ttl_seconds snap = max 0 (redis_ttl now s (''post:'' @ pid))"
    unfolding get_post_live[OF live] by simp
  show "stored_counter now (((\<lambda>x. fst (get_post now pid x)) ^^ k) s) pid Views
           = Some (counter_value Views h + int k)"
    by (rule get_post_repeated_views[OF live])
next
  assume none: "lookup_key now s (''post:'' @ pid) = None"
  show "get_post now pid s = (s, None)" by (rule get_post_absent[OF none])
  show "get_post_endpoint now pid s = (s, Inl HTTP_404)" by (rule get_post_endpoint_absent[OF none])
next
  fix call q h0 d0 h1 d1
  assume "lookup_key now s q = Some (h0, d0)
         \<and> lookup_key now (run_call cfg now call s) q = Some (h1, d1)"
  then show "counter_value Views h0 \<le> counter_value Views h1"
    using run_call_views_mono by blast
qed

text \<open>One post with 500 seconds left, read once and three times; and the empty store.\<close>

theorem get_post_counts_view_and_reads_ttl_witness:
  "lookup_key 100 store_fresh ''post:p'' = Some (post_p, Some 600)
   \<and> (\<exists>s' snap. get_post 100 ''p'' store_fresh = (s', Some snap)
         \<and> stored_counter 100 s' ''p'' Views = Some 1
         \<and> sn_ttl_seconds snap = 500)
   \<and> stored_counter 100 (((\<lambda>x. fst (get_post 100 ''p'' x)) ^^ 3) store_fresh) ''p'' Views = Some 3
   \<and> lookup_key 100 empty_store ''post:p'' = None
   \<and> get_post 100 ''p'' empty_store = (empty_store, None)
   \<and> get_post_endpoint 100 ''p'' empty_store = (empty_store, Inl HTTP_404)
   \<and> lookup_key 100 (run_call default_settings 100 (Get_post ''p'') store_fresh) ''post:p''
        = Some (post_p\<lparr>h_views := Some 1\<rparr>, Some 600)
   \<and> counter_value Views post_p \<le> counter_value Views (post_p\<lparr>h_views := Some 1\<rparr>)"
proof -
  have cv: "counter_value Views post_p = 0"
    by (simp add: counter_value_def post_p_simps)
  have ttl: "redis_ttl 100 store_fresh (''post:'' @ ''p'') = 500"
    using redis_ttl_live[OF store_fresh_live] by simp
  have none: "lookup_key 100 empty_store (''post:'' @ ''p'') = None"
    by (simp add: lookup_key_def empty_store_def)
  have after: "lookup_key 100 (run_call default_settings 100 (Get_post ''p'') store_fresh) (''post:'' @ ''p'')
        = Some (post_p\<lparr>h_views := Some 1\<rparr>, Some 600)"
    unfolding run_call.simps get_post_lookup using store_fresh_live cv by simp
  note th = get_post_counts_view_and_reads_ttl[of 100 store_fresh "''p''" 3 default_settings]
  note th0 = get_post_counts_view_and_reads_ttl[of 100 empty_store "''p''" 0 default_settings]
  have A: "\<exists>s' snap. get_post 100 ''p'' store_fresh = (s', Some snap)
         \<and> stored_counter 100 s' ''p'' Views = Some 1
         \<and> sn_ttl_seconds snap = 500"
    using th store_fresh_live cv ttl by auto
  have B: "stored_counter 100 (((\<lambda>x. fst (get_post 100 ''p'' x)) ^^ 3) store_fresh) ''p'' Views = Some 3"
    using th store_fresh_live cv by auto
  have C: "get_post 100 ''p'' empty_store = (empty_store, None)
      \<and> get_post_endpoint 100 ''p'' empty_store = (empty_store, Inl HTTP_404)"
    using th0 none by auto
  have D: "counter_value Views post_p \<le> counter_value Views (post_p\<lparr>h_views := Some 1\<rparr>)"
    using th store_fresh_live after by blast
  from A B C D store_fresh_live none after show ?thesis by simp
qed

subsection \<open>The endpoints read before they write\<close>

text \<open>
  Claim C10. On a post that exists (the extension duration not negative), the recommend
  endpoint and the report endpoint leave the store that \<open>get_post\<close> followed by the
  service call leaves: the stored \<open>views\<close> counter is one more than before, the rank-views
  index is as \<open>get_post\<close> left it, and the answer is not 404.
\<close>

theorem endpoints_count_a_view:
  assumes live: "lookup_key now s (''post:'' @ pid) = Some (h, d)"
      and ext: "0 \<le> recommendation_extension_ttl cfg"
  shows "fst (recommend_post_endpoint cfg now pid s)
           = fst (recommend_post cfg now pid (fst (get_post now pid s)))
       \<and> fst (report_post_endpoint cfg now pid s)
           = fst (report_post cfg now pid (fst (get_post now pid s)))
       \<and> stored_counter now (fst (recommend_post_endpoint cfg now pid s)) pid Views
           = Some (counter_value Views h + 1)
       \<and> stored_counter now (fst (report_post_endpoint cfg now pid s)) pid Views
           = Some (counter_value Views h + 1)
       \<and> posts_rank_views (fst (recommend_post_endpoint cfg now pid s))
           = posts_rank_views (fst (get_post now pid s))
       \<and> posts_rank_views (fst (report_post_endpoint cfg now pid s))
           = posts_rank_views (fst (get_post now pid s))
       \<and> snd (recommend_post_endpoint cfg now pid s) \<noteq> Inl HTTP_404
       \<and> snd (report_post_endpoint cfg now pid s) \<noteq> Inl HTTP_404"
proof -
  let ?key = "''post:'' @ pid"
  let ?g = "fst (get_post now pid s)"
  let ?h1 = "h\<lparr>h_views := Some (counter_value Views h + 1)\<rparr>"
  obtain snap where snap: "snd (get_post now pid s) = Some snap"
    using snd_get_post_live[OF live] by auto
  have g: "lookup_key now ?g ?key = Some (?h1, d)"
    unfolding get_post_lookup using live by simp
  have v1: "counter_value Views ?h1 = counter_value Views h + 1"
    by (simp add: counter_value_def)
  have e1: "fst (recommend_post_endpoint cfg now pid s) = fst (recommend_post cfg now pid ?g)"
    by (simp add: fst_recommend_post_endpoint snap)
  have e2: "fst (report_post_endpoint cfg now pid s) = fst (report_post cfg now pid ?g)"
    by (simp add: fst_report_post_endpoint snap)
  obtain h2 d2 where h2: "lookup_key now (fst (recommend_post cfg now pid ?g)) ?key = Some (h2, d2)"
    unfolding fst_recommend_post using recommend_script_keeps_key[OF g ext] by blast
  have "counter_value Views h2 = counter_value Views ?h1"
    using recommend_script_views[OF g h2[unfolded fst_recommend_post]] .
  then have c1: "stored_counter now (fst (recommend_post_endpoint cfg now pid s)) pid Views
           = Some (counter_value Views h + 1)"
    unfolding e1 stored_counter_live[OF h2] using v1 by simp
  obtain h3 where h3: "lookup_key now (fst (report_post cfg now pid ?g)) ?key = Some (h3, d)"
    unfolding fst_report_post using report_script_keeps_key[OF g] by blast
  have "counter_value Views h3 = counter_value Views ?h1"
    using report_script_views[OF g h3[unfolded fst_report_post]] .
  then have c2: "stored_counter now (fst (report_post_endpoint cfg now pid s)) pid Views
           = Some (counter_value Views h + 1)"
    unfolding e2 stored_counter_live[OF h3] using v1 by simp
  have r1: "posts_rank_views (fst (recommend_post_endpoint cfg now pid s)) = posts_rank_views ?g"
    unfolding e1 by (rule recommend_post_rank_views_unchanged)
  have r2: "posts_rank_views (fst (report_post_endpoint cfg now pid s)) = posts_rank_views ?g"
    unfolding e2 by (rule report_post_rank_views_unchanged)
  have n1: "snd (recommend_post_endpoint cfg now pid s) \<noteq> Inl HTTP_404"
    using snap
    by (auto simp: recommend_post_endpoint_def split: prod.splits option.splits sum.splits)
  have n2: "snd (report_post_endpoint cfg now pid s) \<noteq> Inl HTTP_404"
    using snap
    by (auto simp: report_post_endpoint_def split: prod.splits option.splits sum.splits)
  from e1 e2 c1 c2 r1 r2 n1 n2 show ?thesis by blast
qed

text \<open>A post that is active, and one that is blinded, where the recommend call fails.\<close>

theorem endpoints_count_a_view_witness:
  "stored_counter 100 store_fresh ''p'' Views = Some 0
   \<and> stored_counter 100 (fst (recommend_post_endpoint default_settings 100 ''p'' store_fresh)) ''p'' Views
       = Some 1
   \<and> stored_counter 100 (fst (report_post_endpoint default_settings 100 ''p'' store_fresh)) ''p'' Views
       = Some 1
   \<and> snd (recommend_post_endpoint default_settings 100 ''p'' store_fresh) \<noteq> Inl HTTP_404
   \<and> snd (report_post_endpoint default_settings 100 ''p'' store_fresh) \<noteq> Inl HTTP_404
   \<and> stored_counter 100 store_blinded ''p'' Views = Some 0
   \<and> stored_counter 100 (fst (recommend_post_endpoint default_settings 100 ''p'' store_blinded)) ''p'' Views
       = Some 1"
proof -
  have ext: "0 \<le> recommendation_extension_ttl default_settings"
    by (simp add: default_settings_def)
  have cv: "counter_value Views post_p = 0"
    by (simp add: counter_value_def post_p_simps)
  have cv2: "counter_value Views (post_p\<lparr>h_recommendations := Some 5, h_reports := Some 50,
      h_status := Some ''blinded''\<rparr>) = 0"
    by (simp add: counter_value_def post_p_simps)
  have a: "stored_counter 100 store_fresh ''p'' Views = Some 0"
    using stored_counter_live[OF store_fresh_live, of Views] cv by simp
  have b: "stored_counter 100 store_blinded ''p'' Views = Some 0"
    using stored_counter_live[OF store_blinded_live, of Views] cv2 by simp
  note t5 = endpoints_count_a_view[OF store_fresh_live ext, unfolded cv]
  note t2 = endpoints_count_a_view[OF store_blinded_live ext, unfolded cv2]
  have c: "stored_counter 100 (fst (recommend_post_endpoint default_settings 100 ''p'' store_fresh)) ''p'' Views
       = Some 1"
    using t5[THEN conjunct2, THEN conjunct2, THEN conjunct1] by simp
  have d: "stored_counter 100 (fst (report_post_endpoint default_settings 100 ''p'' store_fresh)) ''p'' Views
       = Some 1"
    using t5[THEN conjunct2, THEN conjunct2, THEN conjunct2, THEN conjunct1] by simp
  have e: "snd (recommend_post_endpoint default_settings 100 ''p'' store_fresh) \<noteq> Inl HTTP_404"
    using t5 by blast
  have f: "snd (report_post_endpoint default_settings 100 ''p'' store_fresh) \<noteq> Inl HTTP_404"
    using t5 by blast
  have g: "stored_counter 100 (fst (recommend_post_endpoint default_settings 100 ''p'' store_blinded)) ''p'' Views
       = Some 1"
    using t2[THEN conjunct2, THEN conjunct2, THEN conjunct1] by simp
  from a b c d e f g show ?thesis by blast
qed

end
